theory Spec2Isabelle
  imports Complex_Main "HOL-Library.Char_ord" "HOL-Library.List_Lexorder" "HOL-Library.Multiset"
begin

section \<open>Strings\<close>

text \<open>
  Python strings are modelled as \<open>string\<close>, one \<open>char\<close> per character: a \<open>char\<close> is a
  code point below 256, and strings with other characters are outside the model. On these
  code points the classes below are Python's own. \<open>\w\<close> in a \<open>str\<close> pattern is the
  underscore and every character for which \<open>str.isalnum()\<close> holds: the ASCII letters and
  digits, the code points AA, B2, B3, B5, B9, BA, BC, BD, BE, and C0 to FF without D7 and F7.
  \<open>\s\<close>, and the whitespace of \<open>strip\<close> and \<open>split\<close>, is every character for which
  \<open>str.isspace()\<close> holds: 09 to 0D, 1C to 20, 85 and A0. \<open>lower\<close> and \<open>upper\<close> change the
  case of the ASCII letters; they are applied to extensions that are compared with ASCII table
  keys and to the evidence types.
\<close>

definition ascii_upper :: string where
  "ascii_upper = ''ABCDEFGHIJKLMNOPQRSTUVWXYZ''"

definition ascii_lower :: string where
  "ascii_lower = ''abcdefghijklmnopqrstuvwxyz''"

definition ascii_digits :: string where
  "ascii_digits = ''0123456789''"

definition is_word :: "char \<Rightarrow> bool" where
  "is_word c \<longleftrightarrow>
     c \<in> set (ascii_lower @ ascii_upper @ ascii_digits @ ''_'')
     \<or> c \<in> set [CHR 0xAA, CHR 0xB2, CHR 0xB3, CHR 0xB5, CHR 0xB9, CHR 0xBA, CHR 0xBC, CHR 0xBD,
                  CHR 0xBE]
     \<or> (0xC0 \<le> (of_char c :: nat) \<and> c \<noteq> CHR 0xD7 \<and> c \<noteq> CHR 0xF7)"

definition is_space :: "char \<Rightarrow> bool" where
  "is_space c \<longleftrightarrow>
     c \<in> set [CHR '' '', CHR 0x09, CHR 0x0A, CHR 0x0B, CHR 0x0C, CHR 0x0D,
                CHR 0x1C, CHR 0x1D, CHR 0x1E, CHR 0x1F, CHR 0x85, CHR 0xA0]"

definition lower_char :: "char \<Rightarrow> char" where
  "lower_char c = (case map_of (zip ascii_upper ascii_lower) c of Some d \<Rightarrow> d | None \<Rightarrow> c)"

definition upper_char :: "char \<Rightarrow> char" where
  "upper_char c = (case map_of (zip ascii_lower ascii_upper) c of Some d \<Rightarrow> d | None \<Rightarrow> c)"

text \<open>\<open>str.lower()\<close> and \<open>str.upper()\<close>.\<close>

definition lower :: "string \<Rightarrow> string" where
  "lower s = map lower_char s"

definition upper :: "string \<Rightarrow> string" where
  "upper s = map upper_char s"

text \<open>\<open>str.strip()\<close>: leading and trailing whitespace removed.\<close>

definition strip :: "string \<Rightarrow> string" where
  "strip s = rev (dropWhile is_space (rev (dropWhile is_space s)))"

text \<open>\<open>s.rfind(c)\<close>: the index of the last occurrence, \<open>None\<close> for Python's \<open>-1\<close>.\<close>

fun rfind :: "char \<Rightarrow> string \<Rightarrow> nat option" where
  "rfind c [] = None"
| "rfind c (x # xs) =
     (case rfind c xs of
        Some i \<Rightarrow> Some (Suc i)
      | None \<Rightarrow> if x = c then Some 0 else None)"

text \<open>\<open>s.split(c)\<close> with an explicit separator: always at least one piece.\<close>

fun split_on :: "char \<Rightarrow> string \<Rightarrow> string list" where
  "split_on c [] = [[]]"
| "split_on c (x # xs) =
     (if x = c then [] # split_on c xs
      else (case split_on c xs of
              p # ps \<Rightarrow> (x # p) # ps
            | [] \<Rightarrow> [[x]]))"

section \<open>File names\<close>

text \<open>
  \<open>PurePath.suffix\<close> and \<open>PurePath.suffixes\<close> of a final path component, as pathlib
  computes them up to Python 3.13:
  \<^verbatim>\<open>
    i = name.rfind('.')
    if 0 < i < len(name) - 1: return name[i:]
    else: return ''
  \<close>
  \<^verbatim>\<open>
    if name.endswith('.'): return []
    name = name.lstrip('.')
    return ['.' + suffix for suffix in name.split('.')[1:]]
  \<close>
\<close>

definition suffix :: "string \<Rightarrow> string" where
  "suffix name =
     (case rfind (CHR ''.'') name of
        Some i \<Rightarrow> if 0 < i \<and> Suc i < length name then drop i name else []
      | None \<Rightarrow> [])"

definition suffixes :: "string \<Rightarrow> string list" where
  "suffixes name =
     (if name \<noteq> [] \<and> last name = CHR ''.'' then []
      else map (\<lambda>s. CHR ''.'' # s)
             (tl (split_on (CHR ''.'') (dropWhile (\<lambda>c. c = CHR ''.'') name))))"

section \<open>Evidence types\<close>

definition EVIDENCE_TYPES :: "string list" where
  "EVIDENCE_TYPES = [''AUTO'', ''AUDIO'', ''VIDEO'', ''PHOTO'', ''DOC'', ''OTHER'']"

definition EXT_TYPE :: "(string \<times> string) list" where
  "EXT_TYPE =
    [(''.wav'', ''AUDIO''), (''.mp3'', ''AUDIO''), (''.m4a'', ''AUDIO''), (''.aac'', ''AUDIO''),
     (''.flac'', ''AUDIO''),
     (''.mp4'', ''VIDEO''), (''.mov'', ''VIDEO''), (''.mkv'', ''VIDEO''), (''.avi'', ''VIDEO''),
     (''.wmv'', ''VIDEO''),
     (''.jpg'', ''PHOTO''), (''.jpeg'', ''PHOTO''), (''.png'', ''PHOTO''), (''.heic'', ''PHOTO''),
     (''.webp'', ''PHOTO''),
     (''.pdf'', ''DOC''), (''.txt'', ''DOC''), (''.doc'', ''DOC''), (''.docx'', ''DOC'')]"

text \<open>
  \<^verbatim>\<open>
  def detect_type_from_name(name):
      ext = Path(name).suffix.lower()
      return EXT_TYPE.get(ext, "OTHER")
  \<close>
  The argument is always the final component of a path (\<open>p.name\<close>).
\<close>

definition detect_type_from_name :: "string \<Rightarrow> string" where
  "detect_type_from_name name =
     (case map_of EXT_TYPE (lower (suffix name)) of Some t \<Rightarrow> t | None \<Rightarrow> ''OTHER'')"

text \<open>
  The type resolution at the head of the loop body of \<open>ingest_paths\<close>:
  \<^verbatim>\<open>
    ev_type = ev_type_choice
    if ev_type_choice == "AUTO":
        ev_type = detect_type_from_name(original_name)
  \<close>
\<close>

definition effective_type :: "string \<Rightarrow> string \<Rightarrow> string" where
  "effective_type ev_type_choice original_name =
     (if ev_type_choice = ''AUTO'' then detect_type_from_name original_name
      else ev_type_choice)"

section \<open>File-name sanitising\<close>

text \<open>
  \<open>re.sub(r"[...]+", "_", s)\<close> for a character class: every maximal run of characters of
  the class is replaced by one underscore.
\<close>

function sub_runs :: "(char \<Rightarrow> bool) \<Rightarrow> string \<Rightarrow> string" where
  "sub_runs P [] = []"
| "sub_runs P (c # cs) =
     (if P c then CHR ''_'' # sub_runs P (dropWhile P cs) else c # sub_runs P cs)"
  by pat_completeness auto
termination
  by (relation "measure (\<lambda>(P, s). length s)") (auto simp: length_dropWhile_le le_imp_less_Suc)

text \<open>The class \<open>[^\w\-. ]\<close>.\<close>

definition unsafe_char :: "char \<Rightarrow> bool" where
  "unsafe_char c \<longleftrightarrow> \<not> (is_word c \<or> c = CHR ''-'' \<or> c = CHR ''.'' \<or> c = CHR '' '')"

text \<open>
  \<^verbatim>\<open>
  def safe_filename(name):
      name = name.strip()
      name = re.sub(r"[^\w\-. ]+", "_", name)
      name = re.sub(r"\s+", "_", name)
      return name[:180] if len(name) > 180 else name
  \<close>
\<close>

definition safe_filename :: "string \<Rightarrow> string" where
  "safe_filename name =
     (let name = strip name;
          name = sub_runs unsafe_char name;
          name = sub_runs is_space name
      in if length name > 180 then take 180 name else name)"

text \<open>
  The stored name of an ingested file, from the loop body of \<open>ingest_paths\<close>:
  \<^verbatim>\<open>
    ext = "".join(p.suffixes) or ""
    ...
    stored_name = safe_filename(f"{code}{ext}")
  \<close>
\<close>

definition stored_name_for :: "string \<Rightarrow> string \<Rightarrow> string" where
  "stored_name_for code original_name = safe_filename (code @ concat (suffixes original_name))"

subsection \<open>The sanitiser as the specification words it\<close>




text \<open>The characters a sanitised name is made of: word characters, \<open>-\<close> and \<open>.\<close>.\<close>

definition kept_char :: "char \<Rightarrow> bool" where
  "kept_char c \<longleftrightarrow> is_word c \<or> c = CHR ''-'' \<or> c = CHR ''.''"

subsection \<open>The sanitiser as one pass over runs\<close>


section \<open>Numbers and timestamps as text\<close>

definition digit_char :: "nat \<Rightarrow> char" where
  "digit_char n = ascii_digits ! (n mod 10)"

text \<open>\<open>str(n)\<close> for a natural number.\<close>

fun str_nat :: "nat \<Rightarrow> string" where
  "str_nat n = (if n < 10 then [digit_char n] else str_nat (n div 10) @ [digit_char (n mod 10)])"

declare str_nat.simps [simp del]

definition str_int :: "int \<Rightarrow> string" where
  "str_int i = (if i < 0 then CHR ''-'' # str_nat (nat (- i)) else str_nat (nat i))"

text \<open>
  Zero padding to a minimum width, as the format spec \<open>0wd\<close> and the numeric fields of
  \<open>strftime\<close> do for a number that is not negative: a number with more digits than the
  width is written in full.
\<close>

definition zpad :: "nat \<Rightarrow> nat \<Rightarrow> string" where
  "zpad w n = (let s = str_nat n in replicate (w - length s) (CHR ''0'') @ s)"

text \<open>The value of a string of decimal digits, \<open>None\<close> when it is empty or holds anything else.\<close>

definition digit_val :: "char \<Rightarrow> nat option" where
  "digit_val c = map_of (zip ascii_digits [0 ..< 10]) c"

fun digits_val :: "nat \<Rightarrow> string \<Rightarrow> nat option" where
  "digits_val acc [] = Some acc"
| "digits_val acc (c # cs) =
     (case digit_val c of None \<Rightarrow> None | Some d \<Rightarrow> digits_val (10 * acc + d) cs)"

definition number_of :: "string \<Rightarrow> nat option" where
  "number_of s = (if s = [] then None else digits_val 0 s)"

text \<open>
  A \<open>datetime\<close> as \<open>now_local()\<close> returns it. The formats of this program never print the
  microsecond.
\<close>

record datetime =
  year :: nat
  month :: nat
  day :: nat
  hour :: nat
  minute :: nat
  second :: nat
  microsecond :: nat

definition leap_year :: "nat \<Rightarrow> bool" where
  "leap_year y \<longleftrightarrow> (y mod 4 = 0 \<and> y mod 100 \<noteq> 0) \<or> y mod 400 = 0"

definition days_in_month :: "nat \<Rightarrow> nat \<Rightarrow> nat" where
  "days_in_month y m =
     (if m = 2 then (if leap_year y then 29 else 28)
      else if m \<in> {4, 6, 9, 11} then 30 else 31)"

text \<open>The values a \<open>datetime\<close> object can hold, for years written with four digits.\<close>

definition valid_datetime :: "datetime \<Rightarrow> bool" where
  "valid_datetime d \<longleftrightarrow>
     1000 \<le> year d \<and> year d \<le> 9999 \<and> 1 \<le> month d \<and> month d \<le> 12
     \<and> 1 \<le> day d \<and> day d \<le> days_in_month (year d) (month d)
     \<and> hour d < 24 \<and> minute d < 60 \<and> second d < 60 \<and> microsecond d < 1000000"

text \<open>\<open>fmt_ts\<close>: \<open>dt.strftime("%Y-%m-%d %H:%M:%S")\<close>.\<close>

definition fmt_ts :: "datetime \<Rightarrow> string" where
  "fmt_ts dt = zpad 4 (year dt) @ ''-'' @ zpad 2 (month dt) @ ''-'' @ zpad 2 (day dt) @ '' ''
               @ zpad 2 (hour dt) @ '':'' @ zpad 2 (minute dt) @ '':'' @ zpad 2 (second dt)"

text \<open>\<open>dt.strftime("%Y%m%d_%H%M%S")\<close>, the session identifier of \<open>create_session\<close>.\<close>

definition strftime_id :: "datetime \<Rightarrow> string" where
  "strftime_id dt = zpad 4 (year dt) @ zpad 2 (month dt) @ zpad 2 (day dt) @ ''_''
                    @ zpad 2 (hour dt) @ zpad 2 (minute dt) @ zpad 2 (second dt)"

text \<open>\<open>dt.strftime("%Y%m%d")\<close>, the date part of an evidence code.\<close>

definition strftime_date :: "datetime \<Rightarrow> string" where
  "strftime_date dt = zpad 4 (year dt) @ zpad 2 (month dt) @ zpad 2 (day dt)"

text \<open>
  \<open>datetime.strptime(s, "%Y-%m-%d %H:%M:%S")\<close>, with \<open>None\<close> for its \<open>ValueError\<close>. The model
  reads the zero-padded form of nineteen characters, the only one \<open>fmt_ts\<close> writes; Python
  reads one-digit fields as well, and those spellings are errors here.
\<close>

definition strptime_ts :: "string \<Rightarrow> datetime option" where
  "strptime_ts s =
     (if length s = 19 \<and> s ! 4 = CHR ''-'' \<and> s ! 7 = CHR ''-'' \<and> s ! 10 = CHR '' ''
         \<and> s ! 13 = CHR '':'' \<and> s ! 16 = CHR '':''
      then
        (case (number_of (take 4 s), number_of (take 2 (drop 5 s)), number_of (take 2 (drop 8 s)),
               number_of (take 2 (drop 11 s)), number_of (take 2 (drop 14 s)),
               number_of (take 2 (drop 17 s))) of
           (Some y, Some m, Some d, Some h, Some mi, Some sec) \<Rightarrow>
             (if 1 \<le> y \<and> 1 \<le> m \<and> m \<le> 12 \<and> 1 \<le> d \<and> d \<le> days_in_month y m
                 \<and> h < 24 \<and> mi < 60 \<and> sec < 60
              then Some \<lparr>year = y, month = m, day = d, hour = h, minute = mi, second = sec,
                         microsecond = 0\<rparr>
              else None)
         | _ \<Rightarrow> None)
      else None)"

section \<open>The record store and the file system\<close>

text \<open>
  One record per table of \<open>init_db\<close>, the columns under the source's names (prefixed where
  two tables share one). The auto-increment \<open>id\<close> columns are left out: a table is the list
  of its rows in insertion order, and none of the functions below reads an \<open>id\<close>. The
  \<open>tags\<close> columns hold the decoded list, not its JSON text.
\<close>

record session_row =
  session_id :: string
  started_at :: string
  ended_at :: "string option"
  location :: "string option"
  session_notes :: "string option"

record log_row =
  log_session_id :: string
  log_created_at :: string
  mode :: string
  log_author :: string
  log_tags :: "string list"
  log_text :: string
  log_linked_event_id :: "nat option"

record event_row =
  event_session_id :: string
  event_created_at :: string
  event_author :: string
  title :: string
  severity :: int
  event_tags :: "string list"
  event_room :: "string option"
  camera_label :: "string option"

record evidence_row =
  evidence_session_id :: string
  evidence_created_at :: string
  evidence_code :: string
  original_name :: string
  stored_name :: string
  stored_path :: string
  evidence_type :: string
  captured_by :: "string option"
  device :: "string option"
  evidence_room :: "string option"
  description :: "string option"
  evidence_linked_event_id :: "nat option"

record equipment_log_row =
  eq_session_id :: string
  gear_id :: string
  action :: string
  eq_at :: string
  who :: string
  battery :: "int option"
  condition_notes :: "string option"

record tracker_row =
  tracker_session_id :: string
  team_label :: string
  tracker_location :: string
  last_radio_call :: "string option"
  needs_support :: int

text \<open>
  A path is the list of its components; \<open>p / name\<close> appends one component (session
  identifiers and file names are single components). What a canvas draws is a list of
  operations, and a file holds either copied bytes or a saved document.
\<close>

type_synonym path = "string list"

datatype canvas_op =
    DrawImage string rat rat
  | SetFont string nat
  | DrawString rat rat string
  | ShowPage

datatype content = Bytes string | Document "canvas_op list"

record world =
  sessions :: "session_row list"
  logs :: "log_row list"
  events :: "event_row list"
  evidence :: "evidence_row list"
  equipment :: "(string \<times> string) list"
  equipment_log :: "equipment_log_row list"
  tracker :: "tracker_row list"
  dirs :: "path set"
  files :: "path \<rightharpoonup> content"

datatype error = IntegrityError | ValueError string | TypeError | OSError | UnicodeEncodeError

definition DATA_DIR :: path where
  "DATA_DIR = [''data'']"

definition SESSIONS_DIR :: path where
  "SESSIONS_DIR = DATA_DIR @ [''sessions'']"

definition DEFAULT_EQUIPMENT :: "(string \<times> string) list" where
  "DEFAULT_EQUIPMENT =
     [(''EMF Meter'', ''EMF-01''), (''EMF Meter'', ''EMF-02''), (''IR Camera'', ''IR-01''),
      (''Voice Recorder'', ''VR-01''), (''Spirit Box'', ''SB-01''), (''Thermal Camera'', ''TH-01'')]"

text \<open>\<open>str(path)\<close>.\<close>

fun path_str :: "path \<Rightarrow> string" where
  "path_str [] = ''.''"
| "path_str [a] = a"
| "path_str (a # b # r) = a @ ''/'' @ path_str (b # r)"

text \<open>\<open>p.name\<close>.\<close>

definition name_of :: "path \<Rightarrow> string" where
  "name_of p = (if p = [] then [] else last p)"

text \<open>\<open>p.mkdir(parents=True, exist_ok=True)\<close>: the directory and every missing ancestor.\<close>

definition mkdir_parents :: "path \<Rightarrow> world \<Rightarrow> world" where
  "mkdir_parents p w = w\<lparr>dirs := dirs w \<union> set (map (\<lambda>n. take n p) [1 ..< Suc (length p)])\<rparr>"

definition ensure_dirs :: "world \<Rightarrow> world" where
  "ensure_dirs w = mkdir_parents SESSIONS_DIR (mkdir_parents DATA_DIR w)"

text \<open>
  \<open>connect_db\<close> runs \<open>ensure_dirs\<close> and opens the database. Every query and statement of the
  source goes through it, so each function below applies \<open>connect_db\<close> to the world where
  the source opens a connection; the tables themselves are read from the world.
\<close>

definition connect_db :: "world \<Rightarrow> world" where
  "connect_db w = ensure_dirs w"

text \<open>
  \<open>init_db\<close>: the tables exist from then on (the model has them always) and the equipment
  catalogue is seeded when it is empty.
\<close>

definition init_db :: "world \<Rightarrow> world" where
  "init_db w =
     (let w = connect_db w
      in if equipment w = [] then w\<lparr>equipment := DEFAULT_EQUIPMENT\<rparr> else w)"

text \<open>The state \<open>init_db\<close> leaves behind, as far as the directories go.\<close>

definition dirs_ready :: "world \<Rightarrow> bool" where
  "dirs_ready w \<longleftrightarrow> DATA_DIR \<in> dirs w \<and> SESSIONS_DIR \<in> dirs w"

definition get_session_folder :: "string \<Rightarrow> world \<Rightarrow> path \<times> world" where
  "get_session_folder sid w =
     (let p = SESSIONS_DIR @ [sid];
          w = mkdir_parents p w;
          w = mkdir_parents (p @ [''evidence'']) w;
          w = mkdir_parents (p @ [''reports'']) w
      in (p, w))"

text \<open>\<open>s.strip() or None\<close>, and \<open>(s or "").strip() or None\<close> for an optional string.\<close>

definition strip_or_none :: "string \<Rightarrow> string option" where
  "strip_or_none s = (if strip s = [] then None else Some (strip s))"

definition opt_strip_or_none :: "string option \<Rightarrow> string option" where
  "opt_strip_or_none s = strip_or_none (case s of None \<Rightarrow> [] | Some t \<Rightarrow> t)"

section \<open>Session lifecycle\<close>

text \<open>
  \<^verbatim>\<open>
  def create_session(location="", notes=""):
      con = connect_db()
      started = now_local()
      session_id = started.strftime("%Y%m%d_%H%M%S")
      con.execute("INSERT INTO sessions(session_id, started_at, location, notes) VALUES (?,?,?,?)",
                  (session_id, fmt_ts(started), location.strip() or None, notes.strip() or None))
      con.commit(); con.close()
      get_session_folder(session_id)
      return session_id
  \<close>
  The clock reading of \<open>now_local()\<close> is the first argument. \<open>session_id\<close> is the primary key
  of the table, so the \<open>INSERT\<close> of a key that is already there raises
  \<open>sqlite3.IntegrityError\<close> and nothing is committed.
\<close>

definition create_session :: "datetime \<Rightarrow> string \<Rightarrow> string \<Rightarrow> world \<Rightarrow> world \<times> (error + string)" where
  "create_session started loc nts w =
     (let w = connect_db w;
          sid = strftime_id started
      in if sid \<in> set (map session_id (sessions w)) then (w, Inl IntegrityError)
         else
           (let row = \<lparr>session_id = sid, started_at = fmt_ts started, ended_at = None,
                       location = strip_or_none loc, session_notes = strip_or_none nts\<rparr>;
                w = w\<lparr>sessions := sessions w @ [row]\<rparr>;
                (p, w) = get_session_folder sid w
            in (w, Inr sid)))"

text \<open>
  \<^verbatim>\<open>
  def end_session(session_id):
      con = connect_db()
      con.execute("UPDATE sessions SET ended_at = ? WHERE session_id = ?",
                  (fmt_ts(now_local()), session_id))
      con.commit(); con.close()
  \<close>
\<close>

definition end_session :: "datetime \<Rightarrow> string \<Rightarrow> world \<Rightarrow> world" where
  "end_session now sid w =
     (let w = connect_db w
      in w\<lparr>sessions :=
            map (\<lambda>r. if session_id r = sid then r\<lparr>ended_at := Some (fmt_ts now)\<rparr> else r)
              (sessions w)\<rparr>)"

section \<open>Evidence codes\<close>

text \<open>
  \<^verbatim>\<open>
  def next_evidence_counter(session_id):
      row = fetchone("SELECT COUNT(*) as c FROM evidence WHERE session_id = ?", (session_id,))
      return int(row["c"]) + 1
  \<close>
\<close>

definition next_evidence_counter :: "world \<Rightarrow> string \<Rightarrow> nat" where
  "next_evidence_counter w sid =
     length (filter (\<lambda>r. evidence_session_id r = sid) (evidence w)) + 1"

text \<open>
  \<^verbatim>\<open>
  def evidence_code_for(session_id, ev_type):
      started = fetchone("SELECT started_at FROM sessions WHERE session_id = ?", (session_id,))
      date_part = datetime.strptime(started["started_at"], "%Y-%m-%d %H:%M:%S").strftime("%Y%m%d")
      counter = next_evidence_counter(session_id)
      return f"{date_part}_{counter:04d}_{ev_type.upper()}"
  \<close>
  With no row for the session, \<open>started\<close> is \<open>None\<close> and subscripting it raises
  \<open>TypeError\<close>; a \<open>started_at\<close> that does not parse raises \<open>ValueError\<close>.
\<close>

definition evidence_code_for :: "world \<Rightarrow> string \<Rightarrow> string \<Rightarrow> error + string" where
  "evidence_code_for w sid ev_type =
     (case find (\<lambda>r. session_id r = sid) (sessions w) of
        None \<Rightarrow> Inl TypeError
      | Some started \<Rightarrow>
          (case strptime_ts (started_at started) of
             None \<Rightarrow> Inl (ValueError ''time data does not match format'')
           | Some d \<Rightarrow>
               Inr (strftime_date d @ ''_'' @ zpad 4 (next_evidence_counter w sid) @ ''_''
                    @ upper ev_type)))"

section \<open>Ingestion\<close>

text \<open>
  A file handed to \<open>ingest_paths\<close>: the \<open>Path\<close> itself, and what the file system, the
  database and the clock answer when the loop reaches it:
  \<^item> \<open>cand_resolved\<close>: the resolved absolute path;
  \<^item> \<open>cand_probe_ok\<close>: whether \<open>p.exists()\<close> and \<open>p.is_file()\<close> return; up to Python 3.13
    they raise every \<open>OSError\<close> that does not mean ``not there'', a \<open>PermissionError\<close> for
    one;
  \<^item> \<open>cand_is_file\<close>: whether it is an existing regular file;
  \<^item> \<open>cand_bytes\<close>: its bytes;
  \<^item> \<open>cand_write_ok\<close>, \<open>cand_copy2_ok\<close>: whether \<open>write_bytes(read_bytes())\<close> succeeds, and
    whether the fallback \<open>shutil.copy2\<close> does; a copy attempt that fails is modelled as
    leaving the destination as it was;
  \<^item> \<open>cand_insert_ok\<close>: whether the \<open>INSERT\<close> for this file succeeds. It raises
    \<open>UnicodeEncodeError\<close> when the file name holds a byte that is not UTF-8: Python carries
    such a byte as a lone surrogate, which sqlite3 refuses to bind. A surrogate is not a
    character of this model's strings, so the flag stands for it;
  \<^item> \<open>cand_clock\<close>: the time of \<open>now_local()\<close>.
\<close>

record candidate =
  cand_path :: path
  cand_resolved :: string
  cand_probe_ok :: bool
  cand_is_file :: bool
  cand_bytes :: string
  cand_write_ok :: bool
  cand_copy2_ok :: bool
  cand_insert_ok :: bool
  cand_clock :: datetime

text \<open>
  The parameter tuple of the \<open>INSERT INTO evidence\<close> at the end of the loop body, as a row:
  \<^verbatim>\<open>
    (session_id, fmt_ts(now_local()), code, original_name, stored_name, str(stored_path),
     ev_type, captured_by_val, (device or "").strip() or None, (room or "").strip() or None,
     (desc or "").strip() or None, linked_event_id)
  \<close>
\<close>

definition evidence_row_for ::
  "string \<Rightarrow> path \<Rightarrow> string \<Rightarrow> string \<Rightarrow> string option \<Rightarrow> string option \<Rightarrow> string option
   \<Rightarrow> string option \<Rightarrow> nat option \<Rightarrow> candidate \<Rightarrow> evidence_row" where
  "evidence_row_for sid evidence_folder code ev_type captured_by_val dev rm desc linked p =
     \<lparr>evidence_session_id = sid,
      evidence_created_at = fmt_ts (cand_clock p),
      evidence_code = code,
      original_name = name_of (cand_path p),
      stored_name = stored_name_for code (name_of (cand_path p)),
      stored_path = path_str (evidence_folder @ [stored_name_for code (name_of (cand_path p))]),
      evidence_type = ev_type,
      captured_by = captured_by_val,
      device = opt_strip_or_none dev,
      evidence_room = opt_strip_or_none rm,
      description = opt_strip_or_none desc,
      evidence_linked_event_id = linked\<rparr>"

text \<open>
  The body of the loop of \<open>ingest_paths\<close> for one file; \<open>None\<close> in the result is
  \<open>continue\<close>, \<open>Some row\<close> a stored file, \<open>Inl\<close> an exception that leaves the function.
  Only the copy stands inside a \<open>try\<close>: the test of the first line and the \<open>INSERT\<close> do
  not, so what they raise leaves \<open>ingest_paths\<close>.
  \<^verbatim>\<open>
    if not p.exists() or not p.is_file():
        continue
    original_name = p.name
    ext = "".join(p.suffixes) or ""
    ev_type = ev_type_choice
    if ev_type_choice == "AUTO":
        ev_type = detect_type_from_name(original_name)
    code = evidence_code_for(session_id, ev_type)
    stored_name = safe_filename(f"{code}{ext}")
    stored_path = evidence_folder / stored_name
    try:
        stored_path.write_bytes(p.read_bytes())
    except Exception:
        try:
            import shutil
            shutil.copy2(str(p), str(stored_path))
        except Exception:
            continue
    execute("INSERT INTO evidence(...) VALUES (...)",
            (session_id, fmt_ts(now_local()), code, original_name, stored_name, str(stored_path),
             ev_type, captured_by_val, (device or "").strip() or None,
             (room or "").strip() or None, (desc or "").strip() or None, linked_event_id))
    ingested += 1
  \<close>
\<close>

definition ingest_one ::
  "string \<Rightarrow> path \<Rightarrow> string \<Rightarrow> string option \<Rightarrow> string option \<Rightarrow> string option
   \<Rightarrow> string option \<Rightarrow> nat option \<Rightarrow> candidate \<Rightarrow> world
   \<Rightarrow> world \<times> (error + evidence_row option)" where
  "ingest_one sid evidence_folder ev_type_choice captured_by_val dev rm desc linked p w =
     (if \<not> cand_probe_ok p then (w, Inl OSError)
      else if \<not> cand_is_file p then (w, Inr None)
      else
        (let original_name = name_of (cand_path p);
             ev_type = effective_type ev_type_choice original_name;
             w = connect_db w
         in case evidence_code_for w sid ev_type of
              Inl e \<Rightarrow> (w, Inl e)
            | Inr code \<Rightarrow>
                (let sname = stored_name_for code original_name;
                     spath = evidence_folder @ [sname]
                 in if \<not> cand_write_ok p \<and> \<not> cand_copy2_ok p then (w, Inr None)
                    else
                      (let w = w\<lparr>files := (files w)(spath \<mapsto> Bytes (cand_bytes p))\<rparr>;
                           row = evidence_row_for sid evidence_folder code ev_type
                                   captured_by_val dev rm desc linked p;
                           w = connect_db w
                       in if \<not> cand_insert_ok p then (w, Inl UnicodeEncodeError)
                          else (w\<lparr>evidence := evidence w @ [row]\<rparr>, Inr (Some row))))))"

text \<open>The loop, with the running count \<open>ingested\<close>.\<close>

fun ingest_loop ::
  "string \<Rightarrow> path \<Rightarrow> string \<Rightarrow> string option \<Rightarrow> string option \<Rightarrow> string option
   \<Rightarrow> string option \<Rightarrow> nat option \<Rightarrow> candidate list \<Rightarrow> nat \<Rightarrow> world
   \<Rightarrow> world \<times> (error + nat)" where
  "ingest_loop sid folder choice cap dev rm desc linked [] ingested w = (w, Inr ingested)"
| "ingest_loop sid folder choice cap dev rm desc linked (p # ps) ingested w =
     (case ingest_one sid folder choice cap dev rm desc linked p w of
        (w', Inl e) \<Rightarrow> (w', Inl e)
      | (w', Inr None) \<Rightarrow> ingest_loop sid folder choice cap dev rm desc linked ps ingested w'
      | (w', Inr (Some row)) \<Rightarrow>
          ingest_loop sid folder choice cap dev rm desc linked ps (ingested + 1) w')"

text \<open>
  \<^verbatim>\<open>
  def ingest_paths(session_id, file_paths, ev_type_choice, captured_by_val, device, room, desc,
                   linked_event_id) -> int:
      session_folder = get_session_folder(session_id)
      evidence_folder = session_folder / "evidence"
      ingested = 0
      for p in file_paths: ...
      return ingested
  \<close>
\<close>

definition ingest_paths ::
  "string \<Rightarrow> candidate list \<Rightarrow> string \<Rightarrow> string option \<Rightarrow> string option \<Rightarrow> string option
   \<Rightarrow> string option \<Rightarrow> nat option \<Rightarrow> world \<Rightarrow> world \<times> (error + nat)" where
  "ingest_paths sid file_paths ev_type_choice captured_by_val dev rm desc linked w =
     (let (session_folder, w) = get_session_folder sid w;
          evidence_folder = session_folder @ [''evidence'']
      in ingest_loop sid evidence_folder ev_type_choice captured_by_val dev rm desc linked
           file_paths 0 w)"

text \<open>A file whose bytes end up in the evidence folder: it is a regular file and one of the
  two copy attempts succeeds.\<close>

definition storable :: "candidate \<Rightarrow> bool" where
  "storable p \<longleftrightarrow> cand_is_file p \<and> (cand_write_ok p \<or> cand_copy2_ok p)"

text \<open>A file at which the loop body raises, and what it raises: the test of the first line
  does, or the file is copied and its \<open>INSERT\<close> does.\<close>

definition aborts :: "candidate \<Rightarrow> bool" where
  "aborts p \<longleftrightarrow> \<not> cand_probe_ok p \<or> (storable p \<and> \<not> cand_insert_ok p)"

definition abort_error :: "candidate \<Rightarrow> error" where
  "abort_error p = (if \<not> cand_probe_ok p then OSError else UnicodeEncodeError)"

text \<open>
  The rows a batch is expected to append for the files it gets through, written as a
  recursion of its own for the theorems to compare the loop with: one row per storable file,
  in input order, the counter going up by one with each and the date part fixed.
\<close>

fun expected_rows ::
  "string \<Rightarrow> path \<Rightarrow> string \<Rightarrow> string option \<Rightarrow> string option \<Rightarrow> string option
   \<Rightarrow> string option \<Rightarrow> nat option \<Rightarrow> string \<Rightarrow> nat \<Rightarrow> candidate list \<Rightarrow> evidence_row list" where
  "expected_rows sid folder choice cap dev rm desc linked date_part counter [] = []"
| "expected_rows sid folder choice cap dev rm desc linked date_part counter (p # ps) =
     (if storable p
      then evidence_row_for sid folder
             (date_part @ ''_'' @ zpad 4 counter @ ''_''
              @ upper (effective_type choice (name_of (cand_path p))))
             (effective_type choice (name_of (cand_path p))) cap dev rm desc linked p
           # expected_rows sid folder choice cap dev rm desc linked date_part (Suc counter) ps
      else expected_rows sid folder choice cap dev rm desc linked date_part counter ps)"

section \<open>Folder scan and watch mode\<close>

text \<open>
  What the file system shows of the folder when it is scanned: not a directory at all, or the
  regular files among its children (\<open>glob("*")\<close>) and among all its descendants
  (\<open>rglob("*")\<close>).
\<close>

datatype folder_view = NotADirectory | Directory "candidate list" "candidate list"

text \<open>
  \<^verbatim>\<open>
  def scan_folder(path_str):
      p = Path(path_str)
      if not p.exists() or not p.is_dir():
          return []
      if recursive:
          all_files = [x for x in p.rglob("*") if x.is_file()]
      else:
          all_files = [x for x in p.glob("*") if x.is_file()]
      if ignore_set:
          all_files = [x for x in all_files if x.suffix.lower() not in ignore_set]
      return all_files
  \<close>
  \<open>recursive\<close> and \<open>ignore_set\<close> are variables of the enclosing function.
\<close>

definition scan_folder :: "folder_view \<Rightarrow> bool \<Rightarrow> string set \<Rightarrow> candidate list" where
  "scan_folder fv recursive ignore_set =
     (case fv of
        NotADirectory \<Rightarrow> []
      | Directory children descendants \<Rightarrow>
          (let all_files = (if recursive then descendants else children)
           in if ignore_set \<noteq> {}
              then filter (\<lambda>x. lower (suffix (name_of (cand_path x))) \<notin> ignore_set) all_files
              else all_files))"

text \<open>
  The part of \<open>st.session_state\<close> the watch uses. \<open>watch_seen\<close> is stored as a list made
  from a set and read back into a set, so it is a set here.
\<close>

record ui_state =
  watch_on :: bool
  watch_seen :: "string set"

text \<open>
  \<^verbatim>\<open>
    new_files = []
    for f in scan_folder(watch_path):
        key = str(f.resolve())
        if key not in seen:
            new_files.append(f)
            seen.add(key)
  \<close>
\<close>

fun watch_collect :: "candidate list \<Rightarrow> string set \<Rightarrow> candidate list \<Rightarrow> candidate list \<times> string set" where
  "watch_collect [] seen new_files = (new_files, seen)"
| "watch_collect (f # fs) seen new_files =
     (let key = cand_resolved f
      in if key \<notin> seen then watch_collect fs (insert key seen) (new_files @ [f])
         else watch_collect fs seen new_files)"

text \<open>
  One pass of the watch section of \<open>screen_dashboard\<close>; the first argument is the state of
  the ``Enable Watch'' box. The result carries the count that \<open>ingest_paths\<close> returned, if
  it was called.
  \<^verbatim>\<open>
    st.session_state["watch_on"] = watch_on
    if watch_on:
        seen = set(st.session_state.get("watch_seen", []))
        new_files = [] ...
        if new_files:
            ing = ingest_paths(session_id, new_files, ev_type_choice, captured_by_val, device,
                               room, desc, linked_event_id)
        st.session_state["watch_seen"] = list(seen)
  \<close>
\<close>

definition watch_tick ::
  "bool \<Rightarrow> folder_view \<Rightarrow> bool \<Rightarrow> string set \<Rightarrow> string \<Rightarrow> string \<Rightarrow> string option
   \<Rightarrow> string option \<Rightarrow> string option \<Rightarrow> string option \<Rightarrow> nat option \<Rightarrow> ui_state \<Rightarrow> world
   \<Rightarrow> ui_state \<times> world \<times> (error + nat option)" where
  "watch_tick box fv recursive ignore_set sid choice cap dev rm desc linked st w =
     (let st = st\<lparr>watch_on := box\<rparr>
      in if \<not> box then (st, w, Inr None)
         else
           (let (new_files, seen) =
                  watch_collect (scan_folder fv recursive ignore_set) (watch_seen st) []
            in if new_files \<noteq> []
               then (case ingest_paths sid new_files choice cap dev rm desc linked w of
                       (w', Inl e) \<Rightarrow> (st, w', Inl e)
                     | (w', Inr ing) \<Rightarrow> (st\<lparr>watch_seen := seen\<rparr>, w', Inr (Some ing)))
               else (st\<lparr>watch_seen := seen\<rparr>, w, Inr None)))"

section \<open>Timeline merge\<close>

text \<open>
  \<open>list.sort(key=f)\<close> is a stable ascending sort, and a stable sort of a list is unique, so
  insertion sort stands for it. With \<open>reverse=True\<close> CPython reverses the list, sorts it the
  same way and reverses the result, which keeps elements with equal keys in their original
  order.
\<close>

definition py_sort :: "('a \<Rightarrow> 'k::linorder) \<Rightarrow> 'a list \<Rightarrow> 'a list" where
  "py_sort f xs = sort_key f xs"

definition py_sort_reverse :: "('a \<Rightarrow> 'k::linorder) \<Rightarrow> 'a list \<Rightarrow> 'a list" where
  "py_sort_reverse f xs = rev (sort_key f (rev xs))"

text \<open>\<open>sep.join(xs)\<close>.\<close>

fun join :: "string \<Rightarrow> string list \<Rightarrow> string" where
  "join sep [] = []"
| "join sep [x] = x"
| "join sep (x # y # r) = x @ sep @ join sep (y # r)"

text \<open>\<open>[p for p in xs if p]\<close> for a list of optional strings.\<close>

definition truthy :: "string option list \<Rightarrow> string list" where
  "truthy xs = concat (map (\<lambda>p. case p of None \<Rightarrow> [] | Some s \<Rightarrow> if s = [] then [] else [s]) xs)"

text \<open>The separator of the source's literals, as the bytes of the source file.\<close>

definition dash :: string where
  "dash = [CHR 0xC3, CHR 0xA2, CHR 0xE2, CHR 0x82, CHR 0xAC, CHR 0xE2, CHR 0x80, CHR 0x9D]"

text \<open>
  The timeline of \<open>generate_pdf_report\<close>:
  \<^verbatim>\<open>
    merged = []
    for e in events:
        tags = ", ".join(json.loads(e["tags"]) if e["tags"] else [])
        extra = " - ".join([p for p in [e["room"], e["camera_label"], f"sev {e['severity']}", tags] if p])
        merged.append((e["created_at"], "EVENT", f"{e['title']}" + (f" ({extra})" if extra else "")))
    for l in logs:
        tags = ", ".join(json.loads(l["tags"]) if l["tags"] else [])
        merged.append((l["created_at"], l["mode"],
                       f"{l['author']}: {l['text']}" + (f" [tags: {tags}]" if tags else "")))
    merged.sort(key=lambda t: t[0])
  \<close>
  (the separator of \<open>extra\<close> is \<open>dash\<close> between two spaces).
\<close>

definition report_event_entry :: "event_row \<Rightarrow> string \<times> string \<times> string" where
  "report_event_entry e =
     (let tags = join '', '' (event_tags e);
          extra = join ('' '' @ dash @ '' '')
                    (truthy [event_room e, camera_label e, Some (''sev '' @ str_int (severity e)),
                             Some tags])
      in (event_created_at e, ''EVENT'',
          title e @ (if extra \<noteq> [] then '' ('' @ extra @ '')'' else [])))"

definition report_log_entry :: "log_row \<Rightarrow> string \<times> string \<times> string" where
  "report_log_entry l =
     (let tags = join '', '' (log_tags l)
      in (log_created_at l, mode l,
          log_author l @ '': '' @ log_text l
          @ (if tags \<noteq> [] then '' [tags: '' @ tags @ '']'' else [])))"

definition report_timeline :: "event_row list \<Rightarrow> log_row list \<Rightarrow> (string \<times> string \<times> string) list" where
  "report_timeline evs lgs =
     py_sort fst (map report_event_entry evs @ map report_log_entry lgs)"

text \<open>
  The timeline of \<open>screen_dashboard\<close>, whose entries carry the row itself; the display shows
  the first 150 of them.
  \<^verbatim>\<open>
    merged = []
    for e in events:
        merged.append(("EVENT", e["created_at"], e))
    for l in logs:
        merged.append((l["mode"], l["created_at"], l))
    merged.sort(key=lambda t: t[1], reverse=True)
  \<close>
\<close>

datatype timeline_row = EventRow event_row | LogRow log_row

definition dashboard_timeline ::
  "event_row list \<Rightarrow> log_row list \<Rightarrow> (string \<times> string \<times> timeline_row) list" where
  "dashboard_timeline evs lgs =
     py_sort_reverse (\<lambda>t. fst (snd t))
       (map (\<lambda>e. (''EVENT'', event_created_at e, EventRow e)) evs
        @ map (\<lambda>l. (mode l, log_created_at l, LogRow l)) lgs)"

text \<open>
  To compare the two timelines: the report's entry for the row that a dashboard entry
  carries.
\<close>

definition as_report_entry :: "string \<times> string \<times> timeline_row \<Rightarrow> string \<times> string \<times> string" where
  "as_report_entry t =
     (case snd (snd t) of EventRow e \<Rightarrow> report_event_entry e | LogRow l \<Rightarrow> report_log_entry l)"

section \<open>Report\<close>

text \<open>
  Lengths are in points, as exact rationals where the source computes with floats
  (\<open>inch = 72.0\<close>, \<open>letter = (612.0, 792.0)\<close>). The canvas is the list of the operations
  performed on it, and the nonlocal \<open>y\<close> travels with it. \<open>c.stringWidth(s, "Helvetica", 10)\<close>
  belongs to the page writer and is the parameter \<open>sw\<close>.
\<close>

definition inch :: rat where
  "inch = 72"

definition page_width :: rat where
  "page_width = 612"

definition page_height :: rat where
  "page_height = 792"

definition x_margin :: rat where
  "x_margin = 3 / 4 * inch"

text \<open>\<open>text.split()\<close>: the maximal runs of characters that are not whitespace.\<close>

fun split_ws :: "string \<Rightarrow> string \<Rightarrow> string list" where
  "split_ws cur [] = (if cur = [] then [] else [cur])"
| "split_ws cur (c # cs) =
     (if is_space c then (if cur = [] then split_ws [] cs else cur # split_ws [] cs)
      else split_ws (cur @ [c]) cs)"

definition py_split :: "string \<Rightarrow> string list" where
  "py_split s = split_ws [] s"

text \<open>
  \<^verbatim>\<open>
    def section_title(title):
        nonlocal y
        if y < 1.3 * inch:
            c.showPage()
            y = height - 0.75 * inch
        c.setFont("Helvetica-Bold", 13)
        c.drawString(x_margin, y, title)
        y -= 0.3 * inch
        c.setFont("Helvetica", 10)
  \<close>
\<close>

definition section_title :: "string \<Rightarrow> canvas_op list \<times> rat \<Rightarrow> canvas_op list \<times> rat" where
  "section_title ttl cy =
     (let (c, y) = cy;
          (c, y) = (if y < 13 / 10 * inch then (c @ [ShowPage], page_height - 3 / 4 * inch)
                    else (c, y));
          c = c @ [SetFont ''Helvetica-Bold'' 13, DrawString x_margin y ttl];
          y = y - 3 / 10 * inch;
          c = c @ [SetFont ''Helvetica'' 10]
      in (c, y))"

text \<open>
  The two places where \<open>draw_wrapped\<close> puts a line on the page, which differ in the line
  feed only:
  \<^verbatim>\<open>
        if y < 1.1 * inch:
            c.showPage()
            y = height - 0.75 * inch
            c.setFont("Helvetica", 10)
        c.drawString(x_margin + indent, y, line)
        y -= 0.18 * inch          # 0.22 * inch for the last line
  \<close>
\<close>

definition emit_line :: "rat \<Rightarrow> string \<Rightarrow> rat \<Rightarrow> canvas_op list \<times> rat \<Rightarrow> canvas_op list \<times> rat" where
  "emit_line indent line feed cy =
     (let (c, y) = cy;
          (c, y) = (if y < 11 / 10 * inch
                    then (c @ [ShowPage, SetFont ''Helvetica'' 10], page_height - 3 / 4 * inch)
                    else (c, y))
      in (c @ [DrawString (x_margin + indent) y line], y - feed))"

text \<open>
  \<^verbatim>\<open>
    def draw_wrapped(text, indent=0.0):
        nonlocal y
        max_width = width - (x_margin * 2) - indent
        words = (text or "").split()
        line = ""
        for w in words:
            test = (line + " " + w).strip()
            if c.stringWidth(test, "Helvetica", 10) <= max_width:
                line = test
            else:
                (emit line, feed 0.18 inch)
                line = w
        if line:
            (emit line, feed 0.22 inch)
  \<close>
\<close>

fun wrap_words ::
  "(string \<Rightarrow> rat) \<Rightarrow> rat \<Rightarrow> rat \<Rightarrow> string list \<Rightarrow> string \<Rightarrow> canvas_op list \<times> rat
   \<Rightarrow> string \<times> canvas_op list \<times> rat" where
  "wrap_words sw max_width indent [] line cy = (line, cy)"
| "wrap_words sw max_width indent (w # ws) line cy =
     (let test = strip (line @ '' '' @ w)
      in if sw test \<le> max_width then wrap_words sw max_width indent ws test cy
         else wrap_words sw max_width indent ws w (emit_line indent line (18 / 100 * inch) cy))"

definition draw_wrapped ::
  "(string \<Rightarrow> rat) \<Rightarrow> string \<Rightarrow> rat \<Rightarrow> canvas_op list \<times> rat \<Rightarrow> canvas_op list \<times> rat" where
  "draw_wrapped sw txt indent cy =
     (let max_width = page_width - (x_margin * 2) - indent;
          (line, cy) = wrap_words sw max_width indent (py_split txt) [] cy
      in if line \<noteq> [] then emit_line indent line (22 / 100 * inch) cy else cy)"

text \<open>\<open>x or dash\<close> for an optional string.\<close>

definition or_dash :: "string option \<Rightarrow> string" where
  "or_dash x = (case x of None \<Rightarrow> dash | Some s \<Rightarrow> if s = [] then dash else s)"

definition sep :: string where
  "sep = '' '' @ dash @ '' ''"

text \<open>The lines of the three lists of the report, as the loops of the source build them.\<close>

definition evidence_lines :: "evidence_row \<Rightarrow> (string \<times> rat) list" where
  "evidence_lines ev =
     (let meta = (if truthy [device ev] \<noteq> [] then [''Device: '' @ the (device ev)] else [])
               @ (if truthy [evidence_room ev] \<noteq> [] then [''Room: '' @ the (evidence_room ev)] else [])
               @ (if truthy [description ev] \<noteq> [] then [''Notes: '' @ the (description ev)] else [])
      in (evidence_code ev @ sep @ evidence_type ev @ sep @ stored_name ev @ '' '' @ dash
          @ '' Captured by: '' @ or_dash (captured_by ev), 0)
         # (if meta \<noteq> [] then [(join '' | '' meta, 18)] else []))"

definition equipment_line :: "equipment_log_row \<Rightarrow> string" where
  "equipment_line row =
     eq_at row @ sep @ action row @ sep @ gear_id row @ sep @ who row
     @ (case battery row of None \<Rightarrow> [] | Some b \<Rightarrow> sep @ ''battery '' @ str_int b @ ''%'')
     @ (if truthy [condition_notes row] \<noteq> [] then sep @ the (condition_notes row) else [])"

definition tracker_line :: "tracker_row \<Rightarrow> string" where
  "tracker_line t =
     team_label t @ sep @ tracker_location t @ sep @ ''last radio: '' @ or_dash (last_radio_call t)
     @ sep @ ''needs support: '' @ (if needs_support t \<noteq> 0 then ''YES'' else ''no'')"

text \<open>
  Everything \<open>generate_pdf_report\<close> draws, from the creation of the canvas to \<open>c.save()\<close>.
  \<open>logo\<close> is \<open>Some p\<close> when \<open>logo_path\<close> is given, exists and \<open>drawImage\<close> succeeds; a
  \<open>drawImage\<close> that raises is swallowed by the source and draws nothing.
\<close>

definition report_ops ::
  "(string \<Rightarrow> rat) \<Rightarrow> string option \<Rightarrow> string \<Rightarrow> session_row \<Rightarrow> log_row list \<Rightarrow> event_row list
   \<Rightarrow> evidence_row list \<Rightarrow> equipment_log_row list \<Rightarrow> tracker_row list \<Rightarrow> canvas_op list" where
  "report_ops sw logo sid session lgs evs evds equip trk =
     (let y = page_height - 3 / 4 * inch;
          c = (case logo of None \<Rightarrow> [] | Some p \<Rightarrow> [DrawImage p x_margin (y - 6 / 10 * inch)]);
          c = c @ [SetFont ''Helvetica-Bold'' 16,
                   DrawString x_margin (y - 85 / 100 * inch) ''Investigation Report Draft''];
          y = y - 12 / 10 * inch;
          c = c @ [SetFont ''Helvetica'' 11];
          c = c @ [DrawString x_margin y (''Session ID: '' @ sid)];
          y = y - 2 / 10 * inch;
          c = c @ [DrawString x_margin y (''Started: '' @ started_at session)];
          y = y - 2 / 10 * inch;
          c = c @ [DrawString x_margin y (''Ended: '' @ or_dash (ended_at session))];
          y = y - 2 / 10 * inch;
          c = c @ [DrawString x_margin y (''Location: '' @ or_dash (location session))];
          y = y - 35 / 100 * inch;
          cy = section_title ''Timeline (Events + Notes)'' (c, y);
          cy = foldl (\<lambda>cy (ts, kind, txt). draw_wrapped sw (ts @ sep @ kind @ '': '' @ txt) 0 cy)
                 cy (report_timeline evs lgs);
          cy = section_title ''Evidence List'' cy;
          cy = (if evds = [] then draw_wrapped sw ''No evidence logged.'' 0 cy
                else foldl (\<lambda>cy (txt, indent). draw_wrapped sw txt indent cy) cy
                       (concat (map evidence_lines evds)));
          cy = section_title ''Equipment Usage'' cy;
          cy = (if equip = [] then draw_wrapped sw ''No equipment activity logged.'' 0 cy
                else foldl (\<lambda>cy row. draw_wrapped sw (equipment_line row) 0 cy) cy equip);
          cy = section_title ''Investigator Tracker'' cy;
          cy = (if trk = [] then draw_wrapped sw ''No tracker entries.'' 0 cy
                else foldl (\<lambda>cy t. draw_wrapped sw (tracker_line t) 0 cy) cy trk)
      in fst cy)"

text \<open>
  \<^verbatim>\<open>
  def generate_pdf_report(session_id, logo_path=None) -> Path:
      session = fetchone("SELECT * FROM sessions WHERE session_id = ?", (session_id,))
      if not session:
          raise ValueError("Session not found.")
      logs = fetchall("SELECT * FROM logs WHERE session_id = ? ORDER BY created_at ASC", ...)
      events = fetchall("SELECT * FROM events WHERE session_id = ? ORDER BY created_at ASC", ...)
      evidence = fetchall("SELECT * FROM evidence WHERE session_id = ? ORDER BY created_at ASC", ...)
      equip = fetchall("SELECT * FROM equipment_log WHERE session_id = ? ORDER BY at ASC", ...)
      tracker = fetchall("SELECT * FROM tracker WHERE session_id = ? ORDER BY team_label ASC", ...)
      session_folder = get_session_folder(session_id)
      report_path = session_folder / "reports" / f"Report_{session_id}.pdf"
      c = canvas.Canvas(str(report_path), pagesize=letter)
      ...
      c.save()
      return report_path
  \<close>
  \<open>ORDER BY\<close> is modelled as a stable sort of the rows in insertion order. The five
  \<open>fetchall\<close> calls connect again, which changes nothing after the first \<open>connect_db\<close>.
\<close>

definition generate_pdf_report ::
  "(string \<Rightarrow> rat) \<Rightarrow> string option \<Rightarrow> string \<Rightarrow> world \<Rightarrow> world \<times> (error + path)" where
  "generate_pdf_report sw logo sid w =
     (let w = connect_db w
      in case find (\<lambda>r. session_id r = sid) (sessions w) of
           None \<Rightarrow> (w, Inl (ValueError ''Session not found.''))
         | Some session \<Rightarrow>
             (let lgs = sort_key log_created_at (filter (\<lambda>r. log_session_id r = sid) (logs w));
                  evs = sort_key event_created_at (filter (\<lambda>r. event_session_id r = sid) (events w));
                  evds = sort_key evidence_created_at
                           (filter (\<lambda>r. evidence_session_id r = sid) (evidence w));
                  equip = sort_key eq_at (filter (\<lambda>r. eq_session_id r = sid) (equipment_log w));
                  trk = sort_key team_label (filter (\<lambda>r. tracker_session_id r = sid) (tracker w));
                  (session_folder, w) = get_session_folder sid w;
                  report_path = session_folder @ [''reports'', ''Report_'' @ sid @ ''.pdf''];
                  c = report_ops sw logo sid session lgs evs evds equip trk;
                  w = w\<lparr>files := (files w)(report_path \<mapsto> Document c)\<rparr>
              in (w, Inr report_path)))"

text \<open>The strings a document shows, in drawing order.\<close>

definition drawn_strings :: "canvas_op list \<Rightarrow> string list" where
  "drawn_strings c = concat (map (\<lambda>op. case op of DrawString x y s \<Rightarrow> [s] | _ \<Rightarrow> []) c)"

section \<open>Example data\<close>

definition empty_world :: world where
  "empty_world = \<lparr>sessions = [], logs = [], events = [], evidence = [], equipment = [],
                   equipment_log = [], tracker = [], dirs = {}, files = Map.empty\<rparr>"

definition leap_night :: datetime where
  "leap_night = \<lparr>year = 2024, month = 2, day = 29, hour = 23, minute = 58, second = 7,
                  microsecond = 120000\<rparr>"

definition next_morning :: datetime where
  "next_morning = \<lparr>year = 2024, month = 3, day = 1, hour = 0, minute = 10, second = 42,
                    microsecond = 5\<rparr>"

definition attic_world :: world where
  "attic_world = fst (create_session leap_night ''Attic'' [] (init_db empty_world))"

definition clip :: candidate where
  "clip = \<lparr>cand_path = [''E:'', ''DCIM'', ''clip.MP4''], cand_resolved = ''E:/DCIM/clip.MP4'',
           cand_probe_ok = True, cand_is_file = True, cand_bytes = ''moov'', cand_write_ok = True,
           cand_copy2_ok = True, cand_insert_ok = True, cand_clock = next_morning\<rparr>"

definition memo :: candidate where
  "memo = \<lparr>cand_path = [''E:'', ''DCIM'', ''memo.wav''], cand_resolved = ''E:/DCIM/memo.wav'',
           cand_probe_ok = True, cand_is_file = True, cand_bytes = ''RIFF'', cand_write_ok = False,
           cand_copy2_ok = True, cand_insert_ok = True, cand_clock = next_morning\<rparr>"

definition gone :: candidate where
  "gone = \<lparr>cand_path = [''E:'', ''DCIM'', ''gone.jpg''], cand_resolved = ''E:/DCIM/gone.jpg'',
           cand_probe_ok = True, cand_is_file = False, cand_bytes = [], cand_write_ok = True,
           cand_copy2_ok = True, cand_insert_ok = True, cand_clock = next_morning\<rparr>"

definition locked :: candidate where
  "locked = \<lparr>cand_path = [''E:'', ''DCIM'', ''locked.pdf''], cand_resolved = ''E:/DCIM/locked.pdf'',
             cand_probe_ok = True, cand_is_file = True, cand_bytes = ''%PDF'', cand_write_ok = False,
             cand_copy2_ok = False, cand_insert_ok = True, cand_clock = next_morning\<rparr>"

definition knock :: event_row where
  "knock = \<lparr>event_session_id = ''20240229_235807'', event_created_at = ''2024-03-01 00:05:00'',
            event_author = ''Lead'', title = ''Loud knock'', severity = 3, event_tags = [''knock''],
            event_room = Some ''Attic'', camera_label = None\<rparr>"

definition shadow :: event_row where
  "shadow = \<lparr>event_session_id = ''20240229_235807'', event_created_at = ''2024-03-01 00:07:30'',
             event_author = ''Lead'', title = ''Shadow'', severity = 2, event_tags = [],
             event_room = None, camera_label = Some ''Cam 2''\<rparr>"

definition quick_note :: log_row where
  "quick_note = \<lparr>log_session_id = ''20240229_235807'', log_created_at = ''2024-03-01 00:05:00'',
                 mode = ''QUICK'', log_author = ''Basecamp'', log_tags = [],
                 log_text = ''heard it on the radio'', log_linked_event_id = None\<rparr>"

definition late_note :: log_row where
  "late_note = \<lparr>log_session_id = ''20240229_235807'', log_created_at = ''2024-03-01 00:09:10'',
                mode = ''NARRATIVE'', log_author = ''Basecamp'', log_tags = [''EMF''],
                log_text = ''team regrouped'', log_linked_event_id = None\<rparr>"

text \<open>
  A photo whose name on disk holds the byte FF, which is not UTF-8: the name reads
  \<open>IMG\udcff.jpg\<close> in Python, and the model shows it without that character and with the
  flag of the failing \<open>INSERT\<close>.
\<close>

definition raw_name :: candidate where
  "raw_name = \<lparr>cand_path = [''E:'', ''DCIM'', ''IMG.jpg''], cand_resolved = ''E:/DCIM/IMG.jpg'',
               cand_probe_ok = True, cand_is_file = True, cand_bytes = ''JFIF'',
               cand_write_ok = True, cand_copy2_ok = True, cand_insert_ok = False,
               cand_clock = next_morning\<rparr>"

text \<open>A file in a directory that may not be searched: \<open>exists()\<close> raises
  \<open>PermissionError\<close>.\<close>

definition sealed :: candidate where
  "sealed = \<lparr>cand_path = [''E:'', ''private'', ''tape.wav''], cand_resolved = ''E:/private/tape.wav'',
             cand_probe_ok = False, cand_is_file = True, cand_bytes = ''RIFF'',
             cand_write_ok = True, cand_copy2_ok = True, cand_insert_ok = True,
             cand_clock = next_morning\<rparr>"

definition watching :: ui_state where
  "watching = \<lparr>watch_on = True, watch_seen = {}\<rparr>"

text \<open>
  A watched card folder that lists \<open>clip.MP4\<close> before the photo with the raw name, and two
  passes of the watch section over it, the second from the state the first one left.
\<close>

definition card_folder :: folder_view where
  "card_folder = Directory [clip, raw_name] [clip, raw_name]"

definition first_tick :: "ui_state \<times> world \<times> (error + nat option)" where
  "first_tick = watch_tick True card_folder False {} ''20240229_235807'' ''AUTO'' None None None
                  None None watching attic_world"

definition second_tick :: "ui_state \<times> world \<times> (error + nat option)" where
  "second_tick = watch_tick True card_folder False {} ''20240229_235807'' ''AUTO'' None None None
                   None None (fst first_tick) (fst (snd first_tick))"

text \<open>A string width of five points per character, about that of Helvetica at 10 points.\<close>

definition flat_width :: "string \<Rightarrow> rat" where
  "flat_width s = 5 * of_nat (length s)"

section \<open>Type detection\<close>

lemma lower_dot: "lower (CHR ''.'' # e) = CHR ''.'' # lower e"
  by (simp add: lower_def lower_char_def ascii_upper_def ascii_lower_def)

lemma rfind_app: "c \<notin> set e \<Longrightarrow> rfind c (s @ c # e) = Some (length s)"
proof (induction s)
  case Nil
  then have "rfind c e = None" by (induction e) (auto split: option.splits)
  then show ?case by simp
next
  case (Cons a s) then show ?case by simp
qed

lemma suffix_app:
  "stem \<noteq> [] \<Longrightarrow> e \<noteq> [] \<Longrightarrow> CHR ''.'' \<notin> set e \<Longrightarrow> suffix (stem @ CHR ''.'' # e) = CHR ''.'' # e"
  by (simp add: suffix_def rfind_app)

lemma ext_table:
  "(case map_of EXT_TYPE e of Some t \<Rightarrow> t | None \<Rightarrow> ''OTHER'') =
     (if e \<in> {''.wav'', ''.mp3'', ''.m4a'', ''.aac'', ''.flac''} then ''AUDIO''
      else if e \<in> {''.mp4'', ''.mov'', ''.mkv'', ''.avi'', ''.wmv''} then ''VIDEO''
      else if e \<in> {''.jpg'', ''.jpeg'', ''.png'', ''.heic'', ''.webp''} then ''PHOTO''
      else if e \<in> {''.pdf'', ''.txt'', ''.doc'', ''.docx''} then ''DOC''
      else ''OTHER'')"
  unfolding EXT_TYPE_def by simp

text \<open>
  Claim C8. With the choice \<open>AUTO\<close> the effective type is read off the lower-cased extension
  of the file name through the fixed table, every extension outside the table giving
  \<open>OTHER\<close>; two names whose extensions differ only in letter case get the same type;
  \<open>clip.MP4\<close> is a \<open>VIDEO\<close> and a \<open>.xyz\<close> file is \<open>OTHER\<close>. With any other choice the
  effective type is the choice itself.
\<close>

theorem effective_type_table:
  "effective_type choice name =
     (if choice = ''AUTO'' then
        (let e = lower (suffix name) in
         if e \<in> {''.wav'', ''.mp3'', ''.m4a'', ''.aac'', ''.flac''} then ''AUDIO''
         else if e \<in> {''.mp4'', ''.mov'', ''.mkv'', ''.avi'', ''.wmv''} then ''VIDEO''
         else if e \<in> {''.jpg'', ''.jpeg'', ''.png'', ''.heic'', ''.webp''} then ''PHOTO''
         else if e \<in> {''.pdf'', ''.txt'', ''.doc'', ''.docx''} then ''DOC''
         else ''OTHER'')
      else choice)
   \<and> (stem \<noteq> [] \<and> ext \<noteq> [] \<and> CHR ''.'' \<notin> set ext \<and> CHR ''.'' \<notin> set ext' \<and> lower ext' = lower ext
        \<longrightarrow> effective_type ''AUTO'' (stem @ CHR ''.'' # ext')
            = effective_type ''AUTO'' (stem @ CHR ''.'' # ext))
   \<and> effective_type ''AUTO'' ''clip.MP4'' = ''VIDEO''
   \<and> effective_type ''AUTO'' ''notes.xyz'' = ''OTHER''"
proof (intro conjI impI)
  show "effective_type choice name =
     (if choice = ''AUTO'' then
        (let e = lower (suffix name) in
         if e \<in> {''.wav'', ''.mp3'', ''.m4a'', ''.aac'', ''.flac''} then ''AUDIO''
         else if e \<in> {''.mp4'', ''.mov'', ''.mkv'', ''.avi'', ''.wmv''} then ''VIDEO''
         else if e \<in> {''.jpg'', ''.jpeg'', ''.png'', ''.heic'', ''.webp''} then ''PHOTO''
         else if e \<in> {''.pdf'', ''.txt'', ''.doc'', ''.docx''} then ''DOC''
         else ''OTHER'')
      else choice)"
    unfolding effective_type_def detect_type_from_name_def Let_def ext_table by simp
next
  assume a: "stem \<noteq> [] \<and> ext \<noteq> [] \<and> CHR ''.'' \<notin> set ext \<and> CHR ''.'' \<notin> set ext'
             \<and> lower ext' = lower ext"
  then have "ext' \<noteq> []" by (auto simp: lower_def)
  with a show "effective_type ''AUTO'' (stem @ CHR ''.'' # ext')
               = effective_type ''AUTO'' (stem @ CHR ''.'' # ext)"
    by (simp add: effective_type_def detect_type_from_name_def suffix_app lower_dot)
next
  show "effective_type ''AUTO'' ''clip.MP4'' = ''VIDEO''"
    by (simp add: effective_type_def detect_type_from_name_def suffix_def lower_def lower_char_def
        ascii_upper_def ascii_lower_def EXT_TYPE_def)
next
  show "effective_type ''AUTO'' ''notes.xyz'' = ''OTHER''"
    by (simp add: effective_type_def detect_type_from_name_def suffix_def lower_def lower_char_def
        ascii_upper_def ascii_lower_def EXT_TYPE_def)
qed

theorem effective_type_table_witness:
  "effective_type ''AUTO'' ''IMG_0042.JPeG'' = ''PHOTO''
   \<and> effective_type ''AUTO'' ''IMG_0042.JPeG'' = effective_type ''AUTO'' ''IMG_0042.jpeg''
   \<and> effective_type ''DOC'' ''IMG_0042.JPeG'' = ''DOC''"
proof -
  note auto_case = effective_type_table
    [of "''AUTO''" "''IMG_0042.JPeG''" "''IMG_0042''" "''jpeg''" "''JPeG''"]
  note doc_case = effective_type_table
    [of "''DOC''" "''IMG_0042.JPeG''" "''IMG_0042''" "''jpeg''" "''JPeG''"]
  have l: "lower ''JPeG'' = lower ''jpeg''"
    by (simp add: lower_def lower_char_def ascii_upper_def ascii_lower_def)
  have s: "lower (suffix ''IMG_0042.JPeG'') = ''.jpeg''"
    by (simp add: suffix_def lower_def lower_char_def ascii_upper_def ascii_lower_def)
  have 1: "effective_type ''AUTO'' ''IMG_0042.JPeG'' = ''PHOTO''"
    using auto_case [THEN conjunct1] s by (simp add: Let_def)
  have 2: "effective_type ''AUTO'' ''IMG_0042.JPeG'' = effective_type ''AUTO'' ''IMG_0042.jpeg''"
    using auto_case [THEN conjunct2, THEN conjunct1] l by simp
  have 3: "effective_type ''DOC'' ''IMG_0042.JPeG'' = ''DOC''"
    using doc_case [THEN conjunct1] by simp
  from 1 2 3 show ?thesis by simp
qed

section \<open>File-name sanitising\<close>






lemma unsafe_not_kept: "unsafe_char c \<Longrightarrow> \<not> kept_char c"
  by (auto simp: kept_char_def unsafe_char_def)


















section \<open>Numbers and timestamps as text\<close>

lemma mod10_cases:
  "(n::nat) mod 10 = 0 \<or> n mod 10 = 1 \<or> n mod 10 = 2 \<or> n mod 10 = 3 \<or> n mod 10 = 4
   \<or> n mod 10 = 5 \<or> n mod 10 = 6 \<or> n mod 10 = 7 \<or> n mod 10 = 8 \<or> n mod 10 = 9"
  by presburger

lemma digit_val_digit_char: "digit_val (digit_char n) = Some (n mod 10)"
  using mod10_cases[of n]
  by (elim disjE) (simp_all add: digit_val_def digit_char_def ascii_digits_def upt_conv_Cons)

lemma digit_char_zero: "digit_char 0 = CHR ''0''"
  by (simp add: digit_char_def ascii_digits_def)

lemma length_str_nat: "n < 10 ^ k \<Longrightarrow> 0 < k \<Longrightarrow> length (str_nat n) \<le> k"
proof (induction k arbitrary: n)
  case 0
  then show ?case by simp
next
  case (Suc k)
  show ?case
  proof (cases "n < 10")
    case True
    then show ?thesis by (simp add: str_nat.simps[of n])
  next
    case False
    with Suc.prems have k: "0 < k" by (cases k) auto
    from Suc.prems have "n div 10 < 10 ^ k" by (simp add: less_mult_imp_div_less mult.commute)
    with Suc.IH k have "length (str_nat (n div 10)) \<le> k" by simp
    with False show ?thesis by (simp add: str_nat.simps[of n])
  qed
qed

lemma length_zpad: "n < 10 ^ w \<Longrightarrow> 0 < w \<Longrightarrow> length (zpad w n) = w"
  using length_str_nat[of n w] by (simp add: zpad_def Let_def)

lemma zpad2: "n < 100 \<Longrightarrow> zpad 2 n = [digit_char (n div 10), digit_char n]"
proof (cases "n < 10")
  case True
  then show ?thesis
    by (simp add: zpad_def str_nat.simps[of n] digit_char_zero)
next
  case False
  assume "n < 100"
  with False have "n div 10 < 10" by simp
  with False show ?thesis
    by (simp add: zpad_def str_nat.simps[of n] str_nat.simps[of "n div 10"] digit_char_def)
qed

lemma zpad4:
  assumes "1000 \<le> n" "n < 10000"
  shows "zpad 4 n = [digit_char (n div 1000), digit_char (n div 100), digit_char (n div 10),
                     digit_char n]"
proof -
  have d: "n div 10 div 10 = n div 100" "n div 100 div 10 = n div 1000"
    by (simp_all add: div_mult2_eq[symmetric])
  from assms have "n div 1000 < 10" by simp
  then have s3: "str_nat (n div 1000) = [digit_char (n div 1000)]"
    by (subst str_nat.simps) simp
  from assms have "\<not> n div 100 < 10" by simp
  then have s2: "str_nat (n div 100) = str_nat (n div 1000) @ [digit_char (n div 100)]"
    by (subst str_nat.simps) (simp add: d digit_char_def)
  from assms have "\<not> n div 10 < 10" by simp
  then have s1: "str_nat (n div 10) = str_nat (n div 100) @ [digit_char (n div 10)]"
    by (subst str_nat.simps) (simp add: d digit_char_def)
  from assms have "\<not> n < 10" by simp
  then have s0: "str_nat n = str_nat (n div 10) @ [digit_char n]"
    by (subst str_nat.simps) (simp add: digit_char_def)
  show ?thesis
    by (simp add: zpad_def s0 s1 s2 s3)
qed

lemma number_of2: "number_of [digit_char a, digit_char b] = Some (10 * (a mod 10) + b mod 10)"
  by (simp add: number_of_def digit_val_digit_char)

lemma number_of4:
  "number_of [digit_char a, digit_char b, digit_char c, digit_char d]
     = Some (10 * (10 * (10 * (a mod 10) + b mod 10) + c mod 10) + d mod 10)"
  by (simp add: number_of_def digit_val_digit_char)

lemma two_digits: "n < 100 \<Longrightarrow> 10 * (n div 10 mod 10) + n mod 10 = (n::nat)"
  by simp

lemma four_digits:
  assumes "n < 10000"
  shows "10 * (10 * (10 * (n div 1000 mod 10) + n div 100 mod 10) + n div 10 mod 10) + n mod 10
           = (n::nat)"
proof -
  have d: "n div 10 div 10 = n div 100" "n div 100 div 10 = n div 1000"
    by (simp_all add: div_mult2_eq[symmetric])
  from assms have a: "n div 1000 mod 10 = n div 1000" by simp
  have 1: "10 * (n div 10) + n mod 10 = n" by simp
  have 2: "10 * (n div 100) + n div 10 mod 10 = n div 10"
    using mult_div_mod_eq[of 10 "n div 10"] by (simp only: d)
  have 3: "10 * (n div 1000) + n div 100 mod 10 = n div 100"
    using mult_div_mod_eq[of 10 "n div 100"] by (simp only: d)
  show ?thesis
    by (simp only: a 1 2 3)
qed

lemma days_in_month_le: "days_in_month y m \<le> 31"
  by (simp add: days_in_month_def)

lemma valid_datetime_bounds:
  assumes "valid_datetime d"
  shows "1000 \<le> year d" "year d < 10000" "month d < 100" "day d < 100" "hour d < 100"
    "minute d < 100" "second d < 100"
proof -
  from assms have "day d \<le> 31"
    using days_in_month_le[of "year d" "month d"] by (simp add: valid_datetime_def)
  with assms show "1000 \<le> year d" "year d < 10000" "month d < 100" "day d < 100" "hour d < 100"
    "minute d < 100" "second d < 100"
    by (simp_all add: valid_datetime_def)
qed

lemma fmt_ts_explicit:
  assumes "valid_datetime d"
  shows "fmt_ts d =
    [digit_char (year d div 1000), digit_char (year d div 100), digit_char (year d div 10),
     digit_char (year d), CHR ''-'', digit_char (month d div 10), digit_char (month d), CHR ''-'',
     digit_char (day d div 10), digit_char (day d), CHR '' '',
     digit_char (hour d div 10), digit_char (hour d), CHR '':'',
     digit_char (minute d div 10), digit_char (minute d), CHR '':'',
     digit_char (second d div 10), digit_char (second d)]"
  using valid_datetime_bounds[OF assms]
  by (simp add: fmt_ts_def zpad2 zpad4)

lemma strftime_date_explicit:
  assumes "valid_datetime d"
  shows "strftime_date d =
    [digit_char (year d div 1000), digit_char (year d div 100), digit_char (year d div 10),
     digit_char (year d), digit_char (month d div 10), digit_char (month d),
     digit_char (day d div 10), digit_char (day d)]"
  using valid_datetime_bounds[OF assms]
  by (simp add: strftime_date_def zpad2 zpad4)

lemma strftime_id_explicit:
  assumes "valid_datetime d"
  shows "strftime_id d =
    [digit_char (year d div 1000), digit_char (year d div 100), digit_char (year d div 10),
     digit_char (year d), digit_char (month d div 10), digit_char (month d),
     digit_char (day d div 10), digit_char (day d), CHR ''_'',
     digit_char (hour d div 10), digit_char (hour d),
     digit_char (minute d div 10), digit_char (minute d),
     digit_char (second d div 10), digit_char (second d)]"
  using valid_datetime_bounds[OF assms]
  by (simp add: strftime_id_def zpad2 zpad4)

lemma strptime_fmt_ts:
  assumes "valid_datetime d"
  shows "strptime_ts (fmt_ts d) = Some (d\<lparr>microsecond := 0\<rparr>)"
proof -
  note b = valid_datetime_bounds[OF assms]
  note e = fmt_ts_explicit[OF assms]
  have "take 4 (fmt_ts d) = [digit_char (year d div 1000), digit_char (year d div 100),
      digit_char (year d div 10), digit_char (year d)]"
    unfolding e by simp
  then have y: "number_of (take 4 (fmt_ts d)) = Some (year d)"
    by (simp only: number_of4 four_digits[OF b(2)])
  have "take 2 (drop 5 (fmt_ts d)) = [digit_char (month d div 10), digit_char (month d)]"
    unfolding e by simp
  then have m: "number_of (take 2 (drop 5 (fmt_ts d))) = Some (month d)"
    by (simp only: number_of2 two_digits[OF b(3)])
  have "take 2 (drop 8 (fmt_ts d)) = [digit_char (day d div 10), digit_char (day d)]"
    unfolding e by simp
  then have dd: "number_of (take 2 (drop 8 (fmt_ts d))) = Some (day d)"
    by (simp only: number_of2 two_digits[OF b(4)])
  have "take 2 (drop 11 (fmt_ts d)) = [digit_char (hour d div 10), digit_char (hour d)]"
    unfolding e by simp
  then have h: "number_of (take 2 (drop 11 (fmt_ts d))) = Some (hour d)"
    by (simp only: number_of2 two_digits[OF b(5)])
  have "take 2 (drop 14 (fmt_ts d)) = [digit_char (minute d div 10), digit_char (minute d)]"
    unfolding e by simp
  then have mi: "number_of (take 2 (drop 14 (fmt_ts d))) = Some (minute d)"
    by (simp only: number_of2 two_digits[OF b(6)])
  have "take 2 (drop 17 (fmt_ts d)) = [digit_char (second d div 10), digit_char (second d)]"
    unfolding e by simp
  then have s: "number_of (take 2 (drop 17 (fmt_ts d))) = Some (second d)"
    by (simp only: number_of2 two_digits[OF b(7)])
  have shape: "length (fmt_ts d) = 19 \<and> fmt_ts d ! 4 = CHR ''-'' \<and> fmt_ts d ! 7 = CHR ''-''
      \<and> fmt_ts d ! 10 = CHR '' '' \<and> fmt_ts d ! 13 = CHR '':'' \<and> fmt_ts d ! 16 = CHR '':''"
    unfolding e by simp
  have ok: "1 \<le> year d \<and> 1 \<le> month d \<and> month d \<le> 12 \<and> 1 \<le> day d
      \<and> day d \<le> days_in_month (year d) (month d) \<and> hour d < 24 \<and> minute d < 60 \<and> second d < 60"
    using assms by (simp add: valid_datetime_def)
  from s shape have s': "number_of (drop 17 (fmt_ts d)) = Some (second d)"
    by simp
  show ?thesis
    unfolding strptime_ts_def
    using ok by (simp add: shape y m dd h mi s')
qed

section \<open>Directories and connections\<close>

lemma mkdir_parents_fields [simp]:
  "sessions (mkdir_parents p w) = sessions w"
  "logs (mkdir_parents p w) = logs w"
  "events (mkdir_parents p w) = events w"
  "evidence (mkdir_parents p w) = evidence w"
  "equipment (mkdir_parents p w) = equipment w"
  "equipment_log (mkdir_parents p w) = equipment_log w"
  "tracker (mkdir_parents p w) = tracker w"
  "files (mkdir_parents p w) = files w"
  by (simp_all add: mkdir_parents_def)

lemma ancestors1: "set (map (\<lambda>n. take n [a]) [1 ..< Suc (length [a])]) = {[a]}"
  by (simp add: upt_conv_Cons)

lemma ancestors2: "set (map (\<lambda>n. take n [a, b]) [1 ..< Suc (length [a, b])]) = {[a], [a, b]}"
  by (simp add: upt_conv_Cons)

lemma ancestors3:
  "set (map (\<lambda>n. take n [a, b, c]) [1 ..< Suc (length [a, b, c])]) = {[a], [a, b], [a, b, c]}"
  by (simp add: upt_conv_Cons)

lemma ancestors4:
  "set (map (\<lambda>n. take n [a, b, c, d]) [1 ..< Suc (length [a, b, c, d])])
     = {[a], [a, b], [a, b, c], [a, b, c, d]}"
  by (simp add: upt_conv_Cons)

lemma connect_db_fields [simp]:
  "sessions (connect_db w) = sessions w"
  "logs (connect_db w) = logs w"
  "events (connect_db w) = events w"
  "evidence (connect_db w) = evidence w"
  "equipment (connect_db w) = equipment w"
  "equipment_log (connect_db w) = equipment_log w"
  "tracker (connect_db w) = tracker w"
  "files (connect_db w) = files w"
  by (simp_all add: connect_db_def ensure_dirs_def)

lemma connect_db_dirs: "dirs (connect_db w) = insert DATA_DIR (insert SESSIONS_DIR (dirs w))"
  unfolding connect_db_def ensure_dirs_def mkdir_parents_def DATA_DIR_def SESSIONS_DIR_def
  by (simp only: append.simps ancestors1 ancestors2) auto

lemma connect_db_ready: "dirs_ready w \<Longrightarrow> connect_db w = w"
proof -
  assume "dirs_ready w"
  then have "dirs (connect_db w) = dirs w"
    by (auto simp: connect_db_dirs dirs_ready_def)
  then show ?thesis by (intro world.equality) simp_all
qed

lemma dirs_ready_connect_db: "dirs_ready (connect_db w)"
  by (simp add: dirs_ready_def connect_db_dirs)

lemma dirs_ready_init_db: "dirs_ready (init_db w)"
  using dirs_ready_connect_db[of w] by (simp add: init_db_def Let_def dirs_ready_def)

lemma get_session_folder_fields [simp]:
  "sessions (snd (get_session_folder sid w)) = sessions w"
  "logs (snd (get_session_folder sid w)) = logs w"
  "events (snd (get_session_folder sid w)) = events w"
  "evidence (snd (get_session_folder sid w)) = evidence w"
  "equipment (snd (get_session_folder sid w)) = equipment w"
  "equipment_log (snd (get_session_folder sid w)) = equipment_log w"
  "tracker (snd (get_session_folder sid w)) = tracker w"
  "files (snd (get_session_folder sid w)) = files w"
  "fst (get_session_folder sid w) = SESSIONS_DIR @ [sid]"
  by (simp_all add: get_session_folder_def Let_def)

lemma get_session_folder_dirs:
  "dirs (snd (get_session_folder sid w)) =
     dirs w \<union> {DATA_DIR, SESSIONS_DIR, SESSIONS_DIR @ [sid], SESSIONS_DIR @ [sid, ''evidence''],
               SESSIONS_DIR @ [sid, ''reports'']}"
  unfolding get_session_folder_def Let_def mkdir_parents_def DATA_DIR_def SESSIONS_DIR_def
  by (simp only: append.simps ancestors3 ancestors4 snd_conv) auto

lemma dirs_ready_get_session_folder: "dirs_ready (snd (get_session_folder sid w))"
  by (simp add: dirs_ready_def get_session_folder_dirs)

section \<open>Session lifecycle\<close>

lemma strftime_id_microsecond: "strftime_id (d\<lparr>microsecond := u\<rparr>) = strftime_id d"
  by (simp add: strftime_id_def)

lemma create_session_collision:
  assumes "strftime_id now \<in> set (map session_id (sessions w))"
  shows "create_session now loc nts w = (connect_db w, Inl IntegrityError)"
  using assms by (simp add: create_session_def Let_def)

lemma create_session_fresh:
  assumes "strftime_id now \<notin> set (map session_id (sessions w))"
  shows "snd (create_session now loc nts w) = Inr (strftime_id now)"
    and "sessions (fst (create_session now loc nts w)) =
           sessions w @ [\<lparr>session_id = strftime_id now, started_at = fmt_ts now, ended_at = None,
                          location = strip_or_none loc, session_notes = strip_or_none nts\<rparr>]"
  using assms by (simp_all add: create_session_def Let_def split_beta)

lemma create_session_distinct:
  assumes "distinct (map session_id (sessions w))"
  shows "distinct (map session_id (sessions (fst (create_session now loc nts w))))"
proof (cases "strftime_id now \<in> set (map session_id (sessions w))")
  case True
  with assms show ?thesis by (simp add: create_session_collision)
next
  case False
  with assms show ?thesis by (simp add: create_session_fresh(2)[OF False])
qed

text \<open>
  Claim C4. \<open>create_session\<close> names the session by the clock reading printed as
  \<open>YYYYMMDD_HHMMSS\<close>, which ignores the microsecond. When a row with that identifier is
  there already, the call fails with the integrity error of the primary key and the table is
  left as it was; otherwise it returns the identifier and appends one row. So a second call in
  the same second fails and leaves the first row in place, and identifiers that are pairwise
  distinct stay pairwise distinct.
\<close>

theorem create_session_unique:
  "(strftime_id now \<in> set (map session_id (sessions w)) \<longrightarrow>
      snd (create_session now loc nts w) = Inl IntegrityError
      \<and> sessions (fst (create_session now loc nts w)) = sessions w)
   \<and> (strftime_id now \<notin> set (map session_id (sessions w)) \<longrightarrow>
      snd (create_session now loc nts w) = Inr (strftime_id now)
      \<and> sessions (fst (create_session now loc nts w)) =
          sessions w @ [\<lparr>session_id = strftime_id now, started_at = fmt_ts now, ended_at = None,
                         location = strip_or_none loc, session_notes = strip_or_none nts\<rparr>])
   \<and> (distinct (map session_id (sessions w)) \<longrightarrow>
      distinct (map session_id (sessions (fst (create_session now loc nts w)))))
   \<and> strftime_id (now\<lparr>microsecond := u\<rparr>) = strftime_id now
   \<and> (valid_datetime now \<longrightarrow>
      strftime_id now =
        [digit_char (year now div 1000), digit_char (year now div 100),
         digit_char (year now div 10), digit_char (year now),
         digit_char (month now div 10), digit_char (month now),
         digit_char (day now div 10), digit_char (day now), CHR ''_'',
         digit_char (hour now div 10), digit_char (hour now),
         digit_char (minute now div 10), digit_char (minute now),
         digit_char (second now div 10), digit_char (second now)])
   \<and> (snd (create_session now loc nts w) = Inr sid \<longrightarrow>
      snd (create_session (now\<lparr>microsecond := u\<rparr>) loc' nts' (fst (create_session now loc nts w)))
        = Inl IntegrityError
      \<and> sessions (fst (create_session (now\<lparr>microsecond := u\<rparr>) loc' nts'
                         (fst (create_session now loc nts w))))
        = sessions (fst (create_session now loc nts w)))"
proof (intro conjI impI)
  assume a: "strftime_id now \<in> set (map session_id (sessions w))"
  show "snd (create_session now loc nts w) = Inl IntegrityError"
    by (simp add: create_session_collision[OF a])
  show "sessions (fst (create_session now loc nts w)) = sessions w"
    by (simp add: create_session_collision[OF a])
next
  assume a: "strftime_id now \<notin> set (map session_id (sessions w))"
  show "snd (create_session now loc nts w) = Inr (strftime_id now)"
    by (rule create_session_fresh(1)[OF a])
  show "sessions (fst (create_session now loc nts w)) =
          sessions w @ [\<lparr>session_id = strftime_id now, started_at = fmt_ts now, ended_at = None,
                         location = strip_or_none loc, session_notes = strip_or_none nts\<rparr>]"
    by (rule create_session_fresh(2)[OF a])
next
  assume "distinct (map session_id (sessions w))"
  then show "distinct (map session_id (sessions (fst (create_session now loc nts w))))"
    by (rule create_session_distinct)
next
  show "strftime_id (now\<lparr>microsecond := u\<rparr>) = strftime_id now"
    by (rule strftime_id_microsecond)
next
  assume "valid_datetime now"
  then show "strftime_id now =
        [digit_char (year now div 1000), digit_char (year now div 100),
         digit_char (year now div 10), digit_char (year now),
         digit_char (month now div 10), digit_char (month now),
         digit_char (day now div 10), digit_char (day now), CHR ''_'',
         digit_char (hour now div 10), digit_char (hour now),
         digit_char (minute now div 10), digit_char (minute now),
         digit_char (second now div 10), digit_char (second now)]"
    by (rule strftime_id_explicit)
next
  assume r: "snd (create_session now loc nts w) = Inr sid"
  let ?w1 = "fst (create_session now loc nts w)"
  have fresh: "strftime_id now \<notin> set (map session_id (sessions w))"
  proof
    assume "strftime_id now \<in> set (map session_id (sessions w))"
    from create_session_collision[OF this, of loc nts] r show False by simp
  qed
  have "strftime_id (now\<lparr>microsecond := u\<rparr>) \<in> set (map session_id (sessions ?w1))"
    by (simp add: create_session_fresh(2)[OF fresh] strftime_id_microsecond)
  note c = create_session_collision[OF this, of loc' nts']
  show "snd (create_session (now\<lparr>microsecond := u\<rparr>) loc' nts' ?w1) = Inl IntegrityError"
    by (simp add: c)
  show "sessions (fst (create_session (now\<lparr>microsecond := u\<rparr>) loc' nts' ?w1)) = sessions ?w1"
    by (simp add: c)
qed

lemma leap_night_valid: "valid_datetime leap_night"
  by (simp add: valid_datetime_def leap_night_def days_in_month_def leap_year_def)

lemma leap_night_id: "strftime_id leap_night = ''20240229_235807''"
  unfolding strftime_id_explicit[OF leap_night_valid]
  by (simp add: leap_night_def digit_char_def ascii_digits_def)

lemma leap_night_ts: "fmt_ts leap_night = ''2024-02-29 23:58:07''"
  unfolding fmt_ts_explicit[OF leap_night_valid]
  by (simp add: leap_night_def digit_char_def ascii_digits_def)

theorem create_session_unique_witness:
  "snd (create_session leap_night ''Attic'' [] (init_db empty_world)) = Inr ''20240229_235807''
   \<and> snd (create_session (leap_night\<lparr>microsecond := 990000\<rparr>) ''Cellar'' []
            (fst (create_session leap_night ''Attic'' [] (init_db empty_world))))
       = Inl IntegrityError
   \<and> map location (sessions (fst (create_session (leap_night\<lparr>microsecond := 990000\<rparr>) ''Cellar'' []
            (fst (create_session leap_night ''Attic'' [] (init_db empty_world))))))
       = [Some ''Attic'']"
proof -
  note t = create_session_unique [of leap_night "init_db empty_world" "''Attic''" "[]" 990000
      "''20240229_235807''" "''Cellar''" "[]"]
  have fresh: "strftime_id leap_night \<notin> set (map session_id (sessions (init_db empty_world)))"
    by (simp add: init_db_def empty_world_def Let_def)
  have s: "strip_or_none ''Attic'' = Some ''Attic''"
    by (simp add: strip_or_none_def strip_def is_space_def)
  from t fresh have 1:
    "snd (create_session leap_night ''Attic'' [] (init_db empty_world)) = Inr ''20240229_235807''"
    by (simp add: leap_night_id)
  from t fresh have 2: "sessions (fst (create_session leap_night ''Attic'' [] (init_db empty_world)))
      = [\<lparr>session_id = strftime_id leap_night, started_at = fmt_ts leap_night, ended_at = None,
          location = strip_or_none ''Attic'', session_notes = strip_or_none []\<rparr>]"
    by (simp add: init_db_def empty_world_def Let_def)
  from t 1 have 3: "snd (create_session (leap_night\<lparr>microsecond := 990000\<rparr>) ''Cellar'' []
            (fst (create_session leap_night ''Attic'' [] (init_db empty_world))))
       = Inl IntegrityError"
    and 4: "sessions (fst (create_session (leap_night\<lparr>microsecond := 990000\<rparr>) ''Cellar'' []
            (fst (create_session leap_night ''Attic'' [] (init_db empty_world)))))
       = sessions (fst (create_session leap_night ''Attic'' [] (init_db empty_world)))"
    by simp_all
  from 1 3 show ?thesis
    by (simp add: 4 2 s)
qed

lemma end_session_fields [simp]:
  "logs (end_session now sid w) = logs w"
  "events (end_session now sid w) = events w"
  "evidence (end_session now sid w) = evidence w"
  "equipment (end_session now sid w) = equipment w"
  "equipment_log (end_session now sid w) = equipment_log w"
  "tracker (end_session now sid w) = tracker w"
  "files (end_session now sid w) = files w"
  by (simp_all add: end_session_def Let_def)

lemma end_session_sessions:
  "sessions (end_session now sid w) =
     map (\<lambda>r. if session_id r = sid then r\<lparr>ended_at := Some (fmt_ts now)\<rparr> else r) (sessions w)"
  by (simp add: end_session_def Let_def)

lemma end_session_absent:
  assumes "sid \<notin> set (map session_id (sessions w))"
  shows "sessions (end_session now sid w) = sessions w"
  unfolding end_session_sessions using assms by (intro map_idI) auto

text \<open>
  Claim C10. \<open>end_session\<close> leaves every table but \<open>sessions\<close> and every file as it was. In
  \<open>sessions\<close> it keeps the rows, their order and their \<open>session_id\<close>, \<open>started_at\<close>,
  \<open>location\<close> and notes, and sets \<open>ended_at\<close> to the current time in exactly the rows whose
  \<open>session_id\<close> is the argument. For an identifier with no row the table is unchanged, and
  the whole state is once the data directories exist; the function has no error result.
  Ending again overwrites \<open>ended_at\<close> with the time of the later call.
\<close>

theorem end_session_frame:
  "logs (end_session now sid w) = logs w
   \<and> events (end_session now sid w) = events w
   \<and> evidence (end_session now sid w) = evidence w
   \<and> equipment (end_session now sid w) = equipment w
   \<and> equipment_log (end_session now sid w) = equipment_log w
   \<and> tracker (end_session now sid w) = tracker w
   \<and> files (end_session now sid w) = files w
   \<and> dirs (end_session now sid w) = insert DATA_DIR (insert SESSIONS_DIR (dirs w))
   \<and> map session_id (sessions (end_session now sid w)) = map session_id (sessions w)
   \<and> map started_at (sessions (end_session now sid w)) = map started_at (sessions w)
   \<and> map location (sessions (end_session now sid w)) = map location (sessions w)
   \<and> map session_notes (sessions (end_session now sid w)) = map session_notes (sessions w)
   \<and> map ended_at (sessions (end_session now sid w)) =
       map (\<lambda>r. if session_id r = sid then Some (fmt_ts now) else ended_at r) (sessions w)
   \<and> (sid \<notin> set (map session_id (sessions w)) \<longrightarrow> sessions (end_session now sid w) = sessions w)
   \<and> (sid \<notin> set (map session_id (sessions w)) \<and> dirs_ready w \<longrightarrow> end_session now sid w = w)
   \<and> sessions (end_session later sid (end_session now sid w)) = sessions (end_session later sid w)"
proof -
  have frame: "logs (end_session now sid w) = logs w"
    "events (end_session now sid w) = events w"
    "evidence (end_session now sid w) = evidence w"
    "equipment (end_session now sid w) = equipment w"
    "equipment_log (end_session now sid w) = equipment_log w"
    "tracker (end_session now sid w) = tracker w"
    "files (end_session now sid w) = files w"
    by simp_all
  have d: "dirs (end_session now sid w) = insert DATA_DIR (insert SESSIONS_DIR (dirs w))"
    by (simp add: end_session_def Let_def connect_db_dirs)
  have cols: "map session_id (sessions (end_session now sid w)) = map session_id (sessions w)"
    "map started_at (sessions (end_session now sid w)) = map started_at (sessions w)"
    "map location (sessions (end_session now sid w)) = map location (sessions w)"
    "map session_notes (sessions (end_session now sid w)) = map session_notes (sessions w)"
    "map ended_at (sessions (end_session now sid w)) =
       map (\<lambda>r. if session_id r = sid then Some (fmt_ts now) else ended_at r) (sessions w)"
    by (simp_all add: end_session_sessions)
  have absent: "sid \<notin> set (map session_id (sessions w)) \<longrightarrow>
      sessions (end_session now sid w) = sessions w"
    by (simp add: end_session_absent)
  have untouched: "sid \<notin> set (map session_id (sessions w)) \<and> dirs_ready w \<longrightarrow>
      end_session now sid w = w"
  proof
    assume a: "sid \<notin> set (map session_id (sessions w)) \<and> dirs_ready w"
    then have "sessions (end_session now sid w) = sessions w" by (simp add: end_session_absent)
    moreover from a have "dirs (end_session now sid w) = dirs w"
      by (auto simp: d dirs_ready_def)
    ultimately show "end_session now sid w = w"
      by (intro world.equality) (simp_all add: end_session_def Let_def)
  qed
  have again: "sessions (end_session later sid (end_session now sid w))
      = sessions (end_session later sid w)"
    by (simp add: end_session_sessions)
  show ?thesis
    by (intro conjI) (rule frame d cols absent untouched again)+
qed

lemma dirs_ready_create_session: "dirs_ready (fst (create_session now loc nts w))"
  using dirs_ready_connect_db[of w]
    dirs_ready_get_session_folder[of "strftime_id now"]
  by (simp add: create_session_def Let_def split_beta)

lemma next_morning_valid: "valid_datetime next_morning"
  by (simp add: valid_datetime_def next_morning_def days_in_month_def)

lemma next_morning_ts: "fmt_ts next_morning = ''2024-03-01 00:10:42''"
  unfolding fmt_ts_explicit[OF next_morning_valid]
  by (simp add: next_morning_def digit_char_def ascii_digits_def)

lemma attic_world_sessions:
  "sessions attic_world =
     [\<lparr>session_id = ''20240229_235807'', started_at = ''2024-02-29 23:58:07'', ended_at = None,
       location = Some ''Attic'', session_notes = None\<rparr>]"
proof -
  have fresh: "strftime_id leap_night \<notin> set (map session_id (sessions (init_db empty_world)))"
    by (simp add: init_db_def empty_world_def Let_def)
  have s: "strip_or_none ''Attic'' = Some ''Attic''" "strip_or_none [] = None"
    by (simp_all add: strip_or_none_def strip_def is_space_def)
  have e: "sessions (init_db empty_world) = []"
    by (simp add: init_db_def empty_world_def Let_def)
  show ?thesis
    unfolding attic_world_def create_session_fresh(2)[OF fresh]
    by (simp add: e s leap_night_id leap_night_ts)
qed

lemma attic_world_tables:
  "logs attic_world = []" "events attic_world = []" "evidence attic_world = []"
  "equipment_log attic_world = []" "tracker attic_world = []" "files attic_world = Map.empty"
  by (simp_all add: attic_world_def create_session_def Let_def split_beta init_db_def
      empty_world_def)

lemma attic_world_ready: "dirs_ready attic_world"
  unfolding attic_world_def by (rule dirs_ready_create_session)

theorem end_session_frame_witness:
  "map ended_at (sessions (end_session next_morning ''20240229_235807'' attic_world))
     = [Some ''2024-03-01 00:10:42'']
   \<and> map location (sessions (end_session next_morning ''20240229_235807'' attic_world))
     = [Some ''Attic'']
   \<and> end_session next_morning ''20240301_000000'' attic_world = attic_world"
proof -
  note hit = end_session_frame [of next_morning "''20240229_235807''" attic_world leap_night]
  note miss = end_session_frame [of next_morning "''20240301_000000''" attic_world leap_night]
  have absent: "''20240301_000000'' \<notin> set (map session_id (sessions attic_world))"
    by (simp add: attic_world_sessions)
  have 1: "map ended_at (sessions (end_session next_morning ''20240229_235807'' attic_world))
     = [Some ''2024-03-01 00:10:42'']"
    using hit by (simp add: attic_world_sessions next_morning_ts)
  have 2: "map location (sessions (end_session next_morning ''20240229_235807'' attic_world))
     = [Some ''Attic'']"
    using hit by (simp add: attic_world_sessions)
  have 3: "end_session next_morning ''20240301_000000'' attic_world = attic_world"
    using miss absent attic_world_ready by blast
  from 1 2 3 show ?thesis by simp
qed

section \<open>Ingestion\<close>

lemma evidence_code_for_ok:
  assumes "find (\<lambda>r. session_id r = sid) (sessions w) = Some s"
    and "strptime_ts (started_at s) = Some d"
  shows "evidence_code_for w sid ev_type =
     Inr (strftime_date d @ ''_'' @ zpad 4 (next_evidence_counter w sid) @ ''_'' @ upper ev_type)"
  using assms by (simp add: evidence_code_for_def)

lemma next_evidence_counter_connect_db [simp]:
  "next_evidence_counter (connect_db w) sid = next_evidence_counter w sid"
  by (simp add: next_evidence_counter_def)

lemma evidence_code_for_connect_db [simp]:
  "evidence_code_for (connect_db w) sid ev_type = evidence_code_for w sid ev_type"
  by (simp add: evidence_code_for_def split: option.splits)

lemma not_aborts:
  "\<not> aborts p \<longleftrightarrow> cand_probe_ok p \<and> (storable p \<longrightarrow> cand_insert_ok p)"
  by (auto simp: aborts_def)

lemma ingest_one_skip:
  assumes "\<not> storable p" "cand_probe_ok p"
    and "find (\<lambda>r. session_id r = sid) (sessions w) = Some s"
    and "strptime_ts (started_at s) = Some d"
  shows "snd (ingest_one sid folder choice cap dev rm desc linked p w) = Inr None"
    and "sessions (fst (ingest_one sid folder choice cap dev rm desc linked p w)) = sessions w"
    and "evidence (fst (ingest_one sid folder choice cap dev rm desc linked p w)) = evidence w"
    and "logs (fst (ingest_one sid folder choice cap dev rm desc linked p w)) = logs w"
    and "events (fst (ingest_one sid folder choice cap dev rm desc linked p w)) = events w"
    and "equipment (fst (ingest_one sid folder choice cap dev rm desc linked p w)) = equipment w"
    and "equipment_log (fst (ingest_one sid folder choice cap dev rm desc linked p w))
           = equipment_log w"
    and "tracker (fst (ingest_one sid folder choice cap dev rm desc linked p w)) = tracker w"
    and "files (fst (ingest_one sid folder choice cap dev rm desc linked p w)) = files w"
  using assms(1,2)
  by (simp_all add: ingest_one_def storable_def Let_def evidence_code_for_ok[OF assms(3,4)])

lemma ingest_one_store:
  assumes "storable p" "cand_probe_ok p" "cand_insert_ok p"
    and "find (\<lambda>r. session_id r = sid) (sessions w) = Some s"
    and "strptime_ts (started_at s) = Some d"
  shows "snd (ingest_one sid folder choice cap dev rm desc linked p w) =
           Inr (Some (evidence_row_for sid folder
             (strftime_date d @ ''_'' @ zpad 4 (next_evidence_counter w sid) @ ''_''
              @ upper (effective_type choice (name_of (cand_path p))))
             (effective_type choice (name_of (cand_path p))) cap dev rm desc linked p))"
    and "sessions (fst (ingest_one sid folder choice cap dev rm desc linked p w)) = sessions w"
    and "evidence (fst (ingest_one sid folder choice cap dev rm desc linked p w)) =
           evidence w @ [evidence_row_for sid folder
             (strftime_date d @ ''_'' @ zpad 4 (next_evidence_counter w sid) @ ''_''
              @ upper (effective_type choice (name_of (cand_path p))))
             (effective_type choice (name_of (cand_path p))) cap dev rm desc linked p]"
    and "logs (fst (ingest_one sid folder choice cap dev rm desc linked p w)) = logs w"
    and "events (fst (ingest_one sid folder choice cap dev rm desc linked p w)) = events w"
    and "equipment (fst (ingest_one sid folder choice cap dev rm desc linked p w)) = equipment w"
    and "equipment_log (fst (ingest_one sid folder choice cap dev rm desc linked p w))
           = equipment_log w"
    and "tracker (fst (ingest_one sid folder choice cap dev rm desc linked p w)) = tracker w"
  using assms(1,2,3)
  by (auto simp: ingest_one_def storable_def Let_def evidence_code_for_ok[OF assms(4,5)])

text \<open>At a file where the body raises, the tables are as before; the copy of a file whose
  \<open>INSERT\<close> raises has been written.\<close>

lemma ingest_one_abort:
  assumes "aborts p"
    and "find (\<lambda>r. session_id r = sid) (sessions w) = Some s"
    and "strptime_ts (started_at s) = Some d"
  shows "snd (ingest_one sid folder choice cap dev rm desc linked p w) = Inl (abort_error p)"
    and "sessions (fst (ingest_one sid folder choice cap dev rm desc linked p w)) = sessions w"
    and "evidence (fst (ingest_one sid folder choice cap dev rm desc linked p w)) = evidence w"
    and "logs (fst (ingest_one sid folder choice cap dev rm desc linked p w)) = logs w"
    and "events (fst (ingest_one sid folder choice cap dev rm desc linked p w)) = events w"
    and "equipment (fst (ingest_one sid folder choice cap dev rm desc linked p w)) = equipment w"
    and "equipment_log (fst (ingest_one sid folder choice cap dev rm desc linked p w))
           = equipment_log w"
    and "tracker (fst (ingest_one sid folder choice cap dev rm desc linked p w)) = tracker w"
    and "files (fst (ingest_one sid folder choice cap dev rm desc linked p w)) =
           (if cand_probe_ok p
            then (files w)(folder @ [stored_name_for
               (strftime_date d @ ''_'' @ zpad 4 (next_evidence_counter w sid) @ ''_''
                @ upper (effective_type choice (name_of (cand_path p))))
               (name_of (cand_path p))] \<mapsto> Bytes (cand_bytes p))
            else files w)"
  using assms(1)
  by (auto simp: ingest_one_def aborts_def abort_error_def storable_def Let_def
      evidence_code_for_ok[OF assms(2,3)])

lemma evidence_row_for_session [simp]:
  "evidence_session_id (evidence_row_for sid folder code ty cap dev rm desc linked p) = sid"
  by (simp add: evidence_row_for_def)

text \<open>
  What the loop does to the tables, for a session that exists and whose start parses: it
  works through the files up to the first at which the body raises, appends the rows of the
  storable ones among them, and returns the count when there is no such file and the
  exception when there is.
\<close>

lemma ingest_loop_run:
  assumes "find (\<lambda>r. session_id r = sid) (sessions w) = Some s"
    and "strptime_ts (started_at s) = Some d"
  shows "snd (ingest_loop sid folder choice cap dev rm desc linked ps k w)
           = (if \<forall>p\<in>set ps. \<not> aborts p then Inr (k + length (filter storable ps))
              else Inl (abort_error (hd (dropWhile (\<lambda>p. \<not> aborts p) ps))))
       \<and> evidence (fst (ingest_loop sid folder choice cap dev rm desc linked ps k w))
           = evidence w @ expected_rows sid folder choice cap dev rm desc linked
                            (strftime_date d) (next_evidence_counter w sid)
                            (takeWhile (\<lambda>p. \<not> aborts p) ps)
       \<and> sessions (fst (ingest_loop sid folder choice cap dev rm desc linked ps k w)) = sessions w
       \<and> logs (fst (ingest_loop sid folder choice cap dev rm desc linked ps k w)) = logs w
       \<and> events (fst (ingest_loop sid folder choice cap dev rm desc linked ps k w)) = events w
       \<and> equipment (fst (ingest_loop sid folder choice cap dev rm desc linked ps k w))
           = equipment w
       \<and> equipment_log (fst (ingest_loop sid folder choice cap dev rm desc linked ps k w))
           = equipment_log w
       \<and> tracker (fst (ingest_loop sid folder choice cap dev rm desc linked ps k w)) = tracker w"
  using assms
proof (induction ps arbitrary: k w)
  case Nil
  then show ?case by simp
next
  case (Cons p ps)
  let ?one = "ingest_one sid folder choice cap dev rm desc linked p w"
  obtain w1 r where one: "?one = (w1, r)" by (cases ?one)
  then have w1: "w1 = fst ?one" and r: "r = snd ?one" by simp_all
  show ?case
  proof (cases "aborts p")
    case True
    note ab = ingest_one_abort[OF True Cons.prems, of folder choice cap dev rm desc linked]
    from ab(1) r have rn: "r = Inl (abort_error p)" by simp
    show ?thesis
      using True ab(2-8) by (simp add: one rn w1[symmetric])
  next
    case False
    then have pok: "cand_probe_ok p" and iok: "storable p \<longrightarrow> cand_insert_ok p"
      by (simp_all add: not_aborts)
    show ?thesis
    proof (cases "storable p")
      case st: False
      note skip = ingest_one_skip[OF st pok Cons.prems, of folder choice cap dev rm desc linked]
      from skip(1) r have rn: "r = Inr None" by simp
      from skip(2) w1 have "find (\<lambda>r. session_id r = sid) (sessions w1) = Some s"
        using Cons.prems(1) by simp
      note ih = Cons.IH[OF this Cons.prems(2), of k]
      have c: "next_evidence_counter w1 sid = next_evidence_counter w sid"
        using skip(3) w1 by (simp add: next_evidence_counter_def)
      show ?thesis
        using ih False st skip(2-8) by (simp add: one rn c w1[symmetric])
    next
      case st: True
      with iok have ins: "cand_insert_ok p" by simp
      note store = ingest_one_store[OF st pok ins Cons.prems,
          of folder choice cap dev rm desc linked]
      let ?row = "evidence_row_for sid folder
               (strftime_date d @ ''_'' @ zpad 4 (next_evidence_counter w sid) @ ''_''
                @ upper (effective_type choice (name_of (cand_path p))))
               (effective_type choice (name_of (cand_path p))) cap dev rm desc linked p"
      from store(1) r have rn: "r = Inr (Some ?row)" by simp
      from store(2) w1 have "find (\<lambda>r. session_id r = sid) (sessions w1) = Some s"
        using Cons.prems(1) by simp
      note ih = Cons.IH[OF this Cons.prems(2), of "k + 1"]
      have c: "next_evidence_counter w1 sid = Suc (next_evidence_counter w sid)"
        using store(3) w1 by (simp add: next_evidence_counter_def)
      show ?thesis
        using ih False st store(2-8) by (simp add: one rn c w1[symmetric])
    qed
  qed
qed

lemma ingest_paths_loop:
  "ingest_paths sid ps choice cap dev rm desc linked w =
     ingest_loop sid (SESSIONS_DIR @ [sid, ''evidence'']) choice cap dev rm desc linked ps 0
       (snd (get_session_folder sid w))"
  by (simp add: ingest_paths_def split_beta Let_def)

lemma ingest_paths_run:
  assumes "find (\<lambda>r. session_id r = sid) (sessions w) = Some s"
    and "strptime_ts (started_at s) = Some d"
  shows "snd (ingest_paths sid ps choice cap dev rm desc linked w)
           = (if \<forall>p\<in>set ps. \<not> aborts p then Inr (length (filter storable ps))
              else Inl (abort_error (hd (dropWhile (\<lambda>p. \<not> aborts p) ps))))"
    and "evidence (fst (ingest_paths sid ps choice cap dev rm desc linked w))
           = evidence w @ expected_rows sid (SESSIONS_DIR @ [sid, ''evidence'']) choice cap dev rm
                            desc linked (strftime_date d) (next_evidence_counter w sid)
                            (takeWhile (\<lambda>p. \<not> aborts p) ps)"
    and "sessions (fst (ingest_paths sid ps choice cap dev rm desc linked w)) = sessions w"
    and "logs (fst (ingest_paths sid ps choice cap dev rm desc linked w)) = logs w"
    and "events (fst (ingest_paths sid ps choice cap dev rm desc linked w)) = events w"
    and "equipment (fst (ingest_paths sid ps choice cap dev rm desc linked w)) = equipment w"
    and "equipment_log (fst (ingest_paths sid ps choice cap dev rm desc linked w))
           = equipment_log w"
    and "tracker (fst (ingest_paths sid ps choice cap dev rm desc linked w)) = tracker w"
proof -
  let ?w0 = "snd (get_session_folder sid w)"
  have f: "find (\<lambda>r. session_id r = sid) (sessions ?w0) = Some s"
    using assms(1) by simp
  have c: "next_evidence_counter ?w0 sid = next_evidence_counter w sid"
    by (simp add: next_evidence_counter_def)
  note p = ingest_paths_loop
  note l = ingest_loop_run[OF f assms(2), of "SESSIONS_DIR @ [sid, ''evidence'']" choice cap dev rm
      desc linked ps 0]
  show "snd (ingest_paths sid ps choice cap dev rm desc linked w)
           = (if \<forall>p\<in>set ps. \<not> aborts p then Inr (length (filter storable ps))
              else Inl (abort_error (hd (dropWhile (\<lambda>p. \<not> aborts p) ps))))"
    using l by (simp add: p)
  show "evidence (fst (ingest_paths sid ps choice cap dev rm desc linked w))
           = evidence w @ expected_rows sid (SESSIONS_DIR @ [sid, ''evidence'']) choice cap dev rm
                            desc linked (strftime_date d) (next_evidence_counter w sid)
                            (takeWhile (\<lambda>p. \<not> aborts p) ps)"
    using l by (simp add: p c)
  show "sessions (fst (ingest_paths sid ps choice cap dev rm desc linked w)) = sessions w"
    using l by (simp add: p)
  show "logs (fst (ingest_paths sid ps choice cap dev rm desc linked w)) = logs w"
    using l by (simp add: p)
  show "events (fst (ingest_paths sid ps choice cap dev rm desc linked w)) = events w"
    using l by (simp add: p)
  show "equipment (fst (ingest_paths sid ps choice cap dev rm desc linked w)) = equipment w"
    using l by (simp add: p)
  show "equipment_log (fst (ingest_paths sid ps choice cap dev rm desc linked w))
           = equipment_log w"
    using l by (simp add: p)
  show "tracker (fst (ingest_paths sid ps choice cap dev rm desc linked w)) = tracker w"
    using l by (simp add: p)
qed

text \<open>
  The copy of the file whose \<open>INSERT\<close> raises is in the evidence folder when the loop is left,
  under the code the next stored file would have got.
\<close>

lemma ingest_loop_abort_files:
  assumes "find (\<lambda>r. session_id r = sid) (sessions w) = Some s"
    and "strptime_ts (started_at s) = Some d"
    and "\<forall>q\<in>set pre. \<not> aborts q" and "aborts p" and "cand_probe_ok p"
  shows "files (fst (ingest_loop sid folder choice cap dev rm desc linked (pre @ p # post) k w))
           (folder @ [stored_name_for
               (strftime_date d @ ''_''
                @ zpad 4 (next_evidence_counter w sid + length (filter storable pre)) @ ''_''
                @ upper (effective_type choice (name_of (cand_path p))))
               (name_of (cand_path p))]) = Some (Bytes (cand_bytes p))"
  using assms(1,3)
proof (induction pre arbitrary: k w)
  case Nil
  let ?one = "ingest_one sid folder choice cap dev rm desc linked p w"
  obtain w1 r where one: "?one = (w1, r)" by (cases ?one)
  then have w1: "w1 = fst ?one" and r: "r = snd ?one" by simp_all
  note ab = ingest_one_abort[OF assms(4) Nil.prems(1) assms(2),
      of folder choice cap dev rm desc linked]
  from ab(1) r have rn: "r = Inl (abort_error p)" by simp
  from ab(9) w1 assms(5)
  have f: "files w1 = (files w)(folder @ [stored_name_for
               (strftime_date d @ ''_'' @ zpad 4 (next_evidence_counter w sid) @ ''_''
                @ upper (effective_type choice (name_of (cand_path p))))
               (name_of (cand_path p))] \<mapsto> Bytes (cand_bytes p))"
    by simp
  show ?case
    by (simp add: one rn f)
next
  case (Cons q pre)
  let ?one = "ingest_one sid folder choice cap dev rm desc linked q w"
  obtain w1 r where one: "?one = (w1, r)" by (cases ?one)
  then have w1: "w1 = fst ?one" and r: "r = snd ?one" by simp_all
  from Cons.prems(2) have q: "\<not> aborts q" and rest: "\<forall>q\<in>set pre. \<not> aborts q" by simp_all
  from q have pok: "cand_probe_ok q" and iok: "storable q \<longrightarrow> cand_insert_ok q"
    by (simp_all add: not_aborts)
  show ?case
  proof (cases "storable q")
    case False
    note skip = ingest_one_skip[OF False pok Cons.prems(1) assms(2),
        of folder choice cap dev rm desc linked]
    from skip(1) r have rn: "r = Inr None" by simp
    from skip(2) w1 have "find (\<lambda>r. session_id r = sid) (sessions w1) = Some s"
      using Cons.prems(1) by simp
    note ih = Cons.IH[OF this rest, of k]
    have c: "next_evidence_counter w1 sid = next_evidence_counter w sid"
      using skip(3) w1 by (simp add: next_evidence_counter_def)
    show ?thesis
      using ih False by (simp add: one rn c)
  next
    case True
    with iok have ins: "cand_insert_ok q" by simp
    note store = ingest_one_store[OF True pok ins Cons.prems(1) assms(2),
        of folder choice cap dev rm desc linked]
    let ?row = "evidence_row_for sid folder
             (strftime_date d @ ''_'' @ zpad 4 (next_evidence_counter w sid) @ ''_''
              @ upper (effective_type choice (name_of (cand_path q))))
             (effective_type choice (name_of (cand_path q))) cap dev rm desc linked q"
    from store(1) r have rn: "r = Inr (Some ?row)" by simp
    from store(2) w1 have "find (\<lambda>r. session_id r = sid) (sessions w1) = Some s"
      using Cons.prems(1) by simp
    note ih = Cons.IH[OF this rest, of "k + 1"]
    have c: "next_evidence_counter w1 sid = Suc (next_evidence_counter w sid)"
      using store(3) w1 by (simp add: next_evidence_counter_def)
    show ?thesis
      using ih True by (simp add: one rn c)
  qed
qed

lemma length_expected_rows:
  "length (expected_rows sid folder choice cap dev rm desc linked date_part c ps)
     = length (filter storable ps)"
  by (induction ps arbitrary: c) simp_all

lemma expected_rows_nth:
  "i < length (filter storable ps) \<Longrightarrow>
   expected_rows sid folder choice cap dev rm desc linked date_part c ps ! i =
     evidence_row_for sid folder
       (date_part @ ''_'' @ zpad 4 (c + i) @ ''_''
        @ upper (effective_type choice (name_of (cand_path (filter storable ps ! i)))))
       (effective_type choice (name_of (cand_path (filter storable ps ! i))))
       cap dev rm desc linked (filter storable ps ! i)"
proof (induction ps arbitrary: c i)
  case Nil
  then show ?case by simp
next
  case (Cons p ps)
  show ?case
  proof (cases "storable p")
    case False
    with Cons show ?thesis by simp
  next
    case True
    show ?thesis
    proof (cases i)
      case 0
      with True show ?thesis by simp
    next
      case (Suc j)
      with Cons.prems True have "j < length (filter storable ps)" by simp
      from Cons.IH[OF this, of "Suc c"] True Suc show ?thesis by simp
    qed
  qed
qed

lemma expected_rows_names:
  "map original_name (expected_rows sid folder choice cap dev rm desc linked date_part c ps)
     = map (\<lambda>p. name_of (cand_path p)) (filter storable ps)"
  by (induction ps arbitrary: c) (simp_all add: evidence_row_for_def)

lemma detect_type_upper: "upper (detect_type_from_name name) = detect_type_from_name name"
  unfolding detect_type_from_name_def ext_table
  by (simp add: upper_def upper_char_def ascii_lower_def ascii_upper_def)

lemma effective_type_upper:
  assumes "choice \<in> set EVIDENCE_TYPES"
  shows "upper (effective_type choice name) = effective_type choice name"
proof (cases "choice = ''AUTO''")
  case True
  then show ?thesis by (simp add: effective_type_def detect_type_upper)
next
  case False
  with assms have "choice \<in> {''AUDIO'', ''VIDEO'', ''PHOTO'', ''DOC'', ''OTHER''}"
    by (simp add: EVIDENCE_TYPES_def)
  then have "upper choice = choice"
    by (auto simp: upper_def upper_char_def ascii_lower_def ascii_upper_def)
  with False show ?thesis by (simp add: effective_type_def)
qed

lemma attic_session_found:
  "find (\<lambda>r. session_id r = ''20240229_235807'') (sessions attic_world) =
     Some \<lparr>session_id = ''20240229_235807'', started_at = ''2024-02-29 23:58:07'', ended_at = None,
           location = Some ''Attic'', session_notes = None\<rparr>"
  by (simp add: attic_world_sessions)

lemma attic_started_parses:
  "strptime_ts ''2024-02-29 23:58:07'' = Some (leap_night\<lparr>microsecond := 0\<rparr>)"
  using strptime_fmt_ts[OF leap_night_valid] by (simp add: leap_night_ts)

lemma card_storable:
  "filter storable [gone, clip, locked, memo] = [clip, memo]"
  by (simp add: storable_def gone_def clip_def locked_def memo_def)

lemma card_each:
  "\<not> storable gone" "storable clip" "\<not> storable locked" "storable memo"
  by (simp_all add: storable_def gone_def clip_def locked_def memo_def)

lemma card_aborts:
  "\<not> aborts gone" "\<not> aborts clip" "\<not> aborts locked" "\<not> aborts memo"
  "aborts raw_name" "aborts sealed"
  by (simp_all add: aborts_def storable_def gone_def clip_def locked_def memo_def raw_name_def
      sealed_def)

lemma card_abort_error:
  "abort_error raw_name = UnicodeEncodeError" "abort_error sealed = OSError"
  by (simp_all add: abort_error_def raw_name_def sealed_def)

lemma card_prefix:
  "takeWhile (\<lambda>p. \<not> aborts p) [gone, clip, locked, memo] = [gone, clip, locked, memo]"
  by (simp add: card_aborts)

lemma leap_night_date: "strftime_date leap_night = ''20240229''"
  unfolding strftime_date_explicit[OF leap_night_valid]
  by (simp add: leap_night_def digit_char_def ascii_digits_def)

lemma attic_counter: "next_evidence_counter attic_world ''20240229_235807'' = 1"
  by (simp add: next_evidence_counter_def attic_world_tables)

lemma card_names:
  "name_of (cand_path clip) = ''clip.MP4''" "name_of (cand_path memo) = ''memo.wav''"
  "name_of (cand_path raw_name) = ''IMG.jpg''"
  by (simp_all add: name_of_def clip_def memo_def raw_name_def)

lemma card_types:
  "effective_type ''AUTO'' ''clip.MP4'' = ''VIDEO''"
  "effective_type ''AUTO'' ''memo.wav'' = ''AUDIO''"
  "effective_type ''AUTO'' ''IMG.jpg'' = ''PHOTO''"
  by (simp_all add: effective_type_def detect_type_from_name_def suffix_def lower_def lower_char_def
      ascii_upper_def ascii_lower_def EXT_TYPE_def)

lemma type_upper:
  "upper ''VIDEO'' = ''VIDEO''" "upper ''AUDIO'' = ''AUDIO''" "upper ''PHOTO'' = ''PHOTO''"
  by (simp_all add: upper_def upper_char_def ascii_upper_def ascii_lower_def)

lemma zpad_small:
  "zpad 4 (Suc 0) = ''0001''" "zpad 4 (Suc (Suc 0)) = ''0002''"
  "zpad 4 (Suc (Suc (Suc 0))) = ''0003''"
  by code_simp+


text \<open>
  Claim C5. The loop body of \<open>ingest_paths\<close> keeps a failing copy to itself, and a
  reference that is no regular file: such files are passed over and the batch
  \<open>gone.jpg, clip.MP4, locked.pdf, memo.wav\<close> returns the count 2. It does not keep every
  failure of one file to itself, though: the \<open>INSERT\<close> stands outside the \<open>try\<close>. In the batch
  \<open>clip.MP4\<close>, the photo whose name cannot be encoded, \<open>memo.wav\<close> the \<open>INSERT\<close> of the photo
  raises \<open>UnicodeEncodeError\<close>, which leaves \<open>ingest_paths\<close>: no count is returned, the photo
  has been copied into the evidence folder under the code of counter 2 and has no row, and
  \<open>memo.wav\<close>, which is stored when the photo is not in the batch, is never reached. The same
  holds of the test of the first line: a file whose \<open>exists()\<close> raises ends the batch before
  \<open>clip.MP4\<close> is looked at.
\<close>

theorem ingest_paths_insert_failure:
  "snd (ingest_paths ''20240229_235807'' [gone, clip, locked, memo] ''AUTO'' None None None None None
          attic_world) = Inr 2
   \<and> snd (ingest_paths ''20240229_235807'' [clip, raw_name, memo] ''AUTO'' None None None None None
          attic_world) = Inl UnicodeEncodeError
   \<and> map original_name
        (evidence (fst (ingest_paths ''20240229_235807'' [clip, raw_name, memo] ''AUTO'' None None
                          None None None attic_world)))
       = [''clip.MP4'']
   \<and> files (fst (ingest_paths ''20240229_235807'' [clip, raw_name, memo] ''AUTO'' None None None None
                    None attic_world))
        (SESSIONS_DIR @ [''20240229_235807'', ''evidence'', ''20240229_0002_PHOTO.jpg''])
       = Some (Bytes ''JFIF'')
   \<and> snd (ingest_paths ''20240229_235807'' [clip, memo] ''AUTO'' None None None None None
          attic_world) = Inr 2
   \<and> snd (ingest_paths ''20240229_235807'' [sealed, clip] ''AUTO'' None None None None None
          attic_world) = Inl OSError
   \<and> evidence (fst (ingest_paths ''20240229_235807'' [sealed, clip] ''AUTO'' None None None None
                       None attic_world)) = []"
proof -
  let ?sid = "''20240229_235807''"
  let ?folder = "SESSIONS_DIR @ [?sid, ''evidence'']"
  note f = attic_session_found
  have t: "strptime_ts (started_at \<lparr>session_id = ''20240229_235807'',
           started_at = ''2024-02-29 23:58:07'', ended_at = None,
           location = Some ''Attic'', session_notes = None\<rparr>) = Some (leap_night\<lparr>microsecond := 0\<rparr>)"
    using attic_started_parses by simp
  note run = ingest_paths_run[OF f t, of _ "''AUTO''" None None None None None]
  have 1: "snd (ingest_paths ?sid [gone, clip, locked, memo] ''AUTO'' None None None None None
                  attic_world) = Inr 2"
    unfolding run(1) by (simp add: card_aborts card_each)
  have 2: "snd (ingest_paths ?sid [clip, raw_name, memo] ''AUTO'' None None None None None
                  attic_world) = Inl UnicodeEncodeError"
    unfolding run(1) by (simp add: card_aborts card_abort_error)
  note st = card_each(2,4)
  have 3: "map original_name
        (evidence (fst (ingest_paths ?sid [clip, raw_name, memo] ''AUTO'' None None None None None
                          attic_world))) = [''clip.MP4'']"
    unfolding run(2)
    by (simp add: card_aborts attic_world_tables st card_names evidence_row_for_def)
  let ?w0 = "snd (get_session_folder ?sid attic_world)"
  have f0: "find (\<lambda>r. session_id r = ?sid) (sessions ?w0) =
     Some \<lparr>session_id = ''20240229_235807'', started_at = ''2024-02-29 23:58:07'', ended_at = None,
           location = Some ''Attic'', session_notes = None\<rparr>"
    using f by simp
  have c0: "next_evidence_counter ?w0 ?sid = 1"
    using attic_counter by (simp add: next_evidence_counter_def)
  have pre: "\<forall>q\<in>set [clip]. \<not> aborts q" by (simp add: card_aborts)
  have pok: "cand_probe_ok raw_name" by (simp add: raw_name_def)
  have d0: "strftime_date (leap_night\<lparr>microsecond := 0\<rparr>) = ''20240229''"
    using leap_night_date by (simp add: strftime_date_def)
  have sn: "stored_name_for ''20240229_0002_PHOTO'' ''IMG.jpg'' = ''20240229_0002_PHOTO.jpg''"
    by (simp add: stored_name_for_def suffixes_def safe_filename_def strip_def is_space_def
        unsafe_char_def is_word_def ascii_lower_def ascii_upper_def ascii_digits_def)
  have by_bytes: "cand_bytes raw_name = ''JFIF''" by (simp add: raw_name_def)
  have 4: "files (fst (ingest_paths ?sid [clip, raw_name, memo] ''AUTO'' None None None None None
                         attic_world))
             (SESSIONS_DIR @ [?sid, ''evidence'', ''20240229_0002_PHOTO.jpg'']) = Some (Bytes ''JFIF'')"
    using ingest_loop_abort_files[OF f0 t pre card_aborts(5) pok,
        of ?folder "''AUTO''" None None None None None "[memo]" 0]
    by (simp add: ingest_paths_loop c0 d0 st card_names card_types type_upper zpad_small sn
        by_bytes)
  have 5: "snd (ingest_paths ?sid [clip, memo] ''AUTO'' None None None None None attic_world)
             = Inr 2"
    unfolding run(1) by (simp add: card_aborts st)
  have 6: "snd (ingest_paths ?sid [sealed, clip] ''AUTO'' None None None None None attic_world)
             = Inl OSError"
    unfolding run(1) by (simp add: card_aborts card_abort_error)
  have 7: "evidence (fst (ingest_paths ?sid [sealed, clip] ''AUTO'' None None None None None
                            attic_world)) = []"
    unfolding run(2) by (simp add: card_aborts attic_world_tables)
  show ?thesis
    by (intro conjI) (rule 1 2 3 4 5 6 7)+
qed

text \<open>
  Claim C1. In a session whose row carries the start \<open>fmt_ts started\<close>, the i-th file that
  a batch stores gets the evidence code made of the date of \<open>started\<close> as \<open>YYYYMMDD\<close>, the
  counter \<open>1 + (n + i)\<close> zero-padded to four digits, where \<open>n\<close> rows of the session were there
  before the batch and \<open>i\<close> were added by it so far, and the upper-cased resolved type, which
  for a choice from \<open>EVIDENCE_TYPES\<close> is the resolved type itself. The counter runs over all
  rows of the session whatever their type, so successive codes count up by one; the date is
  the session's, while the row's \<open>created_at\<close> is the time of ingestion. A counter below 10000
  fills exactly four digits. The files a batch stores are the storable ones up to the first
  file at which the loop body raises, which is the whole batch when there is none.
\<close>

theorem evidence_code_sequence:
  "find (\<lambda>r. session_id r = sid) (sessions w) = Some s \<and> started_at s = fmt_ts started
   \<and> valid_datetime started \<and> i < length (filter storable (takeWhile (\<lambda>p. \<not> aborts p) ps)) \<longrightarrow>
     evidence_code_for w sid ty =
       Inr (strftime_date started @ ''_''
            @ zpad 4 (1 + length (filter (\<lambda>r. evidence_session_id r = sid) (evidence w))) @ ''_''
            @ upper ty)
     \<and> evidence_code (drop (length (evidence w))
          (evidence (fst (ingest_paths sid ps choice cap dev rm desc linked w))) ! i)
        = strftime_date started @ ''_''
          @ zpad 4 (1 + (length (filter (\<lambda>r. evidence_session_id r = sid) (evidence w)) + i)) @ ''_''
          @ upper (effective_type choice (name_of (cand_path (filter storable (takeWhile (\<lambda>p. \<not> aborts p) ps) ! i))))
     \<and> evidence_type (drop (length (evidence w))
          (evidence (fst (ingest_paths sid ps choice cap dev rm desc linked w))) ! i)
        = effective_type choice (name_of (cand_path (filter storable (takeWhile (\<lambda>p. \<not> aborts p) ps) ! i)))
     \<and> evidence_created_at (drop (length (evidence w))
          (evidence (fst (ingest_paths sid ps choice cap dev rm desc linked w))) ! i)
        = fmt_ts (cand_clock (filter storable (takeWhile (\<lambda>p. \<not> aborts p) ps) ! i))
     \<and> (choice \<in> set EVIDENCE_TYPES \<longrightarrow>
          upper (effective_type choice (name_of (cand_path (filter storable (takeWhile (\<lambda>p. \<not> aborts p) ps) ! i))))
            = effective_type choice (name_of (cand_path (filter storable (takeWhile (\<lambda>p. \<not> aborts p) ps) ! i))))
     \<and> (1 + (length (filter (\<lambda>r. evidence_session_id r = sid) (evidence w)) + i) < 10000 \<longrightarrow>
          length (zpad 4 (1 + (length (filter (\<lambda>r. evidence_session_id r = sid) (evidence w)) + i)))
            = 4)
     \<and> strftime_date started =
          [digit_char (year started div 1000), digit_char (year started div 100),
           digit_char (year started div 10), digit_char (year started),
           digit_char (month started div 10), digit_char (month started),
           digit_char (day started div 10), digit_char (day started)]"
proof (intro impI)
  assume a: "find (\<lambda>r. session_id r = sid) (sessions w) = Some s \<and> started_at s = fmt_ts started
   \<and> valid_datetime started \<and> i < length (filter storable (takeWhile (\<lambda>p. \<not> aborts p) ps))"
  then have f: "find (\<lambda>r. session_id r = sid) (sessions w) = Some s"
    and v: "valid_datetime started" and i: "i < length (filter storable (takeWhile (\<lambda>p. \<not> aborts p) ps))"
    and st: "started_at s = fmt_ts started" by simp_all
  have t: "strptime_ts (started_at s) = Some (started\<lparr>microsecond := 0\<rparr>)"
    by (simp add: st strptime_fmt_ts[OF v])
  have dt: "strftime_date (started\<lparr>microsecond := 0\<rparr>) = strftime_date started"
    by (simp add: strftime_date_def)
  let ?n = "length (filter (\<lambda>r. evidence_session_id r = sid) (evidence w))"
  let ?rows = "drop (length (evidence w))
          (evidence (fst (ingest_paths sid ps choice cap dev rm desc linked w)))"
  let ?p = "filter storable (takeWhile (\<lambda>p. \<not> aborts p) ps) ! i"
  let ?ty = "effective_type choice (name_of (cand_path ?p))"
  have c: "next_evidence_counter w sid = 1 + ?n"
    by (simp add: next_evidence_counter_def)
  have 1: "evidence_code_for w sid ty =
       Inr (strftime_date started @ ''_'' @ zpad 4 (1 + ?n) @ ''_'' @ upper ty)"
    using evidence_code_for_ok[OF f t, of ty] by (simp only: dt c)
  have "evidence (fst (ingest_paths sid ps choice cap dev rm desc linked w)) =
      evidence w @ expected_rows sid (SESSIONS_DIR @ [sid, ''evidence'']) choice cap dev rm
                            desc linked (strftime_date started) (1 + ?n)
                            (takeWhile (\<lambda>p. \<not> aborts p) ps)"
    using ingest_paths_run(2)[OF f t, of ps choice cap dev rm desc linked]
    by (simp only: dt c)
  then have rows: "?rows = expected_rows sid (SESSIONS_DIR @ [sid, ''evidence'']) choice cap dev rm
                            desc linked (strftime_date started) (1 + ?n)
                            (takeWhile (\<lambda>p. \<not> aborts p) ps)"
    by simp
  have row: "?rows ! i = evidence_row_for sid (SESSIONS_DIR @ [sid, ''evidence''])
       (strftime_date started @ ''_'' @ zpad 4 (1 + ?n + i) @ ''_'' @ upper ?ty) ?ty
       cap dev rm desc linked ?p"
    unfolding rows by (rule expected_rows_nth[OF i])
  have 2: "evidence_code (?rows ! i)
        = strftime_date started @ ''_'' @ zpad 4 (1 + (?n + i)) @ ''_'' @ upper ?ty"
    by (simp add: row evidence_row_for_def)
  have 3: "evidence_type (?rows ! i) = ?ty"
    by (simp add: row evidence_row_for_def)
  have 4: "evidence_created_at (?rows ! i) = fmt_ts (cand_clock ?p)"
    by (simp add: row evidence_row_for_def)
  have 5: "choice \<in> set EVIDENCE_TYPES \<longrightarrow> upper ?ty = ?ty"
    by (simp add: effective_type_upper)
  have 6: "1 + (?n + i) < 10000 \<longrightarrow> length (zpad 4 (1 + (?n + i))) = 4"
    using length_zpad[of "1 + (?n + i)" 4] by simp
  have 7: "strftime_date started =
          [digit_char (year started div 1000), digit_char (year started div 100),
           digit_char (year started div 10), digit_char (year started),
           digit_char (month started div 10), digit_char (month started),
           digit_char (day started div 10), digit_char (day started)]"
    by (rule strftime_date_explicit[OF v])
  show "evidence_code_for w sid ty =
       Inr (strftime_date started @ ''_'' @ zpad 4 (1 + ?n) @ ''_'' @ upper ty)
     \<and> evidence_code (?rows ! i)
        = strftime_date started @ ''_'' @ zpad 4 (1 + (?n + i)) @ ''_'' @ upper ?ty
     \<and> evidence_type (?rows ! i) = ?ty
     \<and> evidence_created_at (?rows ! i) = fmt_ts (cand_clock ?p)
     \<and> (choice \<in> set EVIDENCE_TYPES \<longrightarrow> upper ?ty = ?ty)
     \<and> (1 + (?n + i) < 10000 \<longrightarrow> length (zpad 4 (1 + (?n + i))) = 4)
     \<and> strftime_date started =
          [digit_char (year started div 1000), digit_char (year started div 100),
           digit_char (year started div 10), digit_char (year started),
           digit_char (month started div 10), digit_char (month started),
           digit_char (day started div 10), digit_char (day started)]"
    by (intro conjI) (rule 1 2 3 4 5 6 7)+
qed

theorem evidence_code_sequence_witness:
  "evidence_code (evidence (fst (ingest_paths ''20240229_235807'' [gone, clip, locked, memo] ''AUTO''
      None None None None None attic_world)) ! 1) = ''20240229_0002_AUDIO''
   \<and> evidence_created_at (evidence (fst (ingest_paths ''20240229_235807'' [gone, clip, locked, memo]
      ''AUTO'' None None None None None attic_world)) ! 1) = ''2024-03-01 00:10:42''
   \<and> evidence_code_for attic_world ''20240229_235807'' ''photo'' = Inr ''20240229_0001_PHOTO''"
proof -
  note t = evidence_code_sequence [of "''20240229_235807''" attic_world
      "\<lparr>session_id = ''20240229_235807'', started_at = ''2024-02-29 23:58:07'', ended_at = None,
        location = Some ''Attic'', session_notes = None\<rparr>"
      leap_night 1 "[gone, clip, locked, memo]" "''photo''" "''AUTO''" None None None None None]
  have h: "find (\<lambda>r. session_id r = ''20240229_235807'') (sessions attic_world) =
     Some \<lparr>session_id = ''20240229_235807'', started_at = ''2024-02-29 23:58:07'', ended_at = None,
           location = Some ''Attic'', session_notes = None\<rparr>
     \<and> started_at \<lparr>session_id = ''20240229_235807'', started_at = ''2024-02-29 23:58:07'',
           ended_at = None, location = Some ''Attic'', session_notes = None\<rparr> = fmt_ts leap_night
     \<and> valid_datetime leap_night
     \<and> 1 < length (filter storable (takeWhile (\<lambda>p. \<not> aborts p) [gone, clip, locked, memo]))"
  proof -
    have "1 < length (filter storable (takeWhile (\<lambda>p. \<not> aborts p) [gone, clip, locked, memo]))"
      unfolding card_prefix card_storable by simp
    with attic_session_found leap_night_valid show ?thesis
      by (simp only: session_row.simps leap_night_ts)
  qed
  note t' = t [THEN mp, OF h, unfolded card_prefix card_storable]
  have z1: "zpad 4 (Suc 0) = ''0001''"
    by code_simp
  have z2: "zpad 4 (Suc (Suc 0)) = ''0002''"
    by code_simp
  note z = z1 z2
  have ty: "effective_type ''AUTO'' (name_of (cand_path memo)) = ''AUDIO''"
    by (simp add: effective_type_def detect_type_from_name_def suffix_def lower_def lower_char_def
        ascii_upper_def ascii_lower_def EXT_TYPE_def name_of_def memo_def)
  have up: "upper ''AUDIO'' = ''AUDIO''" "upper ''photo'' = ''PHOTO''"
    by (simp_all add: upper_def upper_char_def ascii_upper_def ascii_lower_def)
  have 1: "evidence_code (evidence (fst (ingest_paths ''20240229_235807'' [gone, clip, locked, memo]
      ''AUTO'' None None None None None attic_world)) ! 1) = ''20240229_0002_AUDIO''"
    using t' [THEN conjunct2, THEN conjunct1]
    by (simp add: attic_world_tables leap_night_date z ty up)
  have 2: "evidence_created_at (evidence (fst (ingest_paths ''20240229_235807''
      [gone, clip, locked, memo] ''AUTO'' None None None None None attic_world)) ! 1)
      = ''2024-03-01 00:10:42''"
    using t' [THEN conjunct2, THEN conjunct2, THEN conjunct2, THEN conjunct1]
    by (simp add: attic_world_tables next_morning_ts memo_def)
  have 3: "evidence_code_for attic_world ''20240229_235807'' ''photo'' = Inr ''20240229_0001_PHOTO''"
    using t' [THEN conjunct1]
    by (simp add: attic_world_tables leap_night_date z up)
  from 1 2 3 show ?thesis by simp
qed

section \<open>Timeline merge\<close>

lemma insort_key_map_commute:
  assumes "f (g x) = h x" "\<And>y. y \<in> set ys \<Longrightarrow> f (g y) = h y"
  shows "insort_key f (g x) (map g ys) = map g (insort_key h x ys)"
  using assms by (induction ys) simp_all

lemma sort_key_map_commute:
  assumes "\<And>x. x \<in> set xs \<Longrightarrow> f (g x) = h x"
  shows "sort_key f (map g xs) = map g (sort_key h xs)"
  using assms
proof (induction xs)
  case Nil
  then show ?case by simp
next
  case (Cons x xs)
  then have ih: "sort_key f (map g xs) = map g (sort_key h xs)" by simp
  have "insort_key f (g x) (map g (sort_key h xs)) = map g (insort_key h x (sort_key h xs))"
    using Cons.prems by (intro insort_key_map_commute) simp_all
  with ih show ?case by simp
qed

lemma py_sort_sorted: "sorted (map f (py_sort f xs))"
  by (simp add: py_sort_def)

lemma py_sort_stable: "filter (\<lambda>y. f y = k) (py_sort f xs) = filter (\<lambda>y. f y = k) xs"
  by (simp add: py_sort_def sort_key_stable)

lemma py_sort_reverse_sorted: "sorted (rev (map f (py_sort_reverse f xs)))"
  by (simp add: py_sort_reverse_def rev_map)

lemma py_sort_reverse_stable:
  "filter (\<lambda>y. f y = k) (py_sort_reverse f xs) = filter (\<lambda>y. f y = k) xs"
proof -
  have "filter (\<lambda>y. f y = k) (py_sort_reverse f xs)
          = rev (filter (\<lambda>y. f y = k) (sort_key f (rev xs)))"
    by (simp add: py_sort_reverse_def rev_filter)
  also have "\<dots> = rev (filter (\<lambda>y. f y = k) (rev xs))"
    by (simp only: sort_key_stable)
  also have "\<dots> = filter (\<lambda>y. f y = k) xs"
    by (simp add: rev_filter)
  finally show ?thesis .
qed

lemma py_sort_reverse_distinct:
  assumes "distinct (map f xs)"
  shows "py_sort_reverse f xs = rev (py_sort f xs)"
proof -
  from assms have "inj_on f (set (rev xs))"
    by (simp add: distinct_map)
  moreover have "mset (rev xs) = mset xs" by simp
  ultimately have "sort_key f (rev xs) = sort_key f xs"
    by (rule sort_key_eq_sort_key[rotated])
  then show ?thesis by (simp add: py_sort_reverse_def py_sort_def)
qed

lemma fst_report_event_entry [simp]: "fst (report_event_entry e) = event_created_at e"
  by (simp add: report_event_entry_def Let_def)

lemma fst_report_log_entry [simp]: "fst (report_log_entry l) = log_created_at l"
  by (simp add: report_log_entry_def Let_def)

lemma dashboard_as_report:
  assumes "distinct (map event_created_at evs @ map log_created_at lgs)"
  shows "map as_report_entry (dashboard_timeline evs lgs) = rev (report_timeline evs lgs)"
proof -
  let ?D = "map (\<lambda>e. (''EVENT'', event_created_at e, EventRow e)) evs
            @ map (\<lambda>l. (mode l, log_created_at l, LogRow l)) lgs"
  let ?ts = "\<lambda>t::string \<times> string \<times> timeline_row. fst (snd t)"
  have keys: "map ?ts ?D = map event_created_at evs @ map log_created_at lgs"
    by (simp add: comp_def)
  with assms have "distinct (map ?ts ?D)" by (simp only:)
  then have d: "dashboard_timeline evs lgs = rev (py_sort ?ts ?D)"
    unfolding dashboard_timeline_def by (rule py_sort_reverse_distinct)
  have m: "map as_report_entry ?D = map report_event_entry evs @ map report_log_entry lgs"
    by (simp add: as_report_entry_def comp_def)
  have "\<And>x. x \<in> set ?D \<Longrightarrow> fst (as_report_entry x) = ?ts x"
    by (auto simp: as_report_entry_def)
  then have "sort_key fst (map as_report_entry ?D) = map as_report_entry (sort_key ?ts ?D)"
    by (rule sort_key_map_commute)
  then have "map as_report_entry (py_sort ?ts ?D) = report_timeline evs lgs"
    unfolding report_timeline_def py_sort_def m by (rule sym)
  moreover from d have "map as_report_entry (dashboard_timeline evs lgs)
      = rev (map as_report_entry (py_sort ?ts ?D))"
    by (simp only: rev_map)
  ultimately show ?thesis by (simp only:)
qed

text \<open>
  Claim C2, as stated, fails on the code: an event and a note with the same timestamp come
  out in input order from both sorts (event first), so the descending timeline is not the
  reverse of the ascending one.
\<close>

theorem timeline_reverse_counterexample:
  "map as_report_entry (dashboard_timeline [knock] [quick_note])
     \<noteq> rev (report_timeline [knock] [quick_note])"
  by (simp add: dashboard_timeline_def report_timeline_def py_sort_def py_sort_reverse_def
      as_report_entry_def report_event_entry_def report_log_entry_def knock_def quick_note_def
      Let_def)

text \<open>
  Claim C2, amended. Both timelines are sorts of the events followed by the notes by the
  timestamp string in lexicographic order, the report's ascending and the dashboard's
  descending, and both are stable: the entries of one timestamp keep their input order,
  events before notes, in the descending timeline as well. When no two entries share a
  timestamp, the descending timeline is exactly the reverse of the ascending one.
\<close>

theorem timeline_merge_order:
  "sorted (map fst (report_timeline evs lgs))
   \<and> filter (\<lambda>x. fst x = t) (report_timeline evs lgs)
       = filter (\<lambda>x. fst x = t) (map report_event_entry evs @ map report_log_entry lgs)
   \<and> sorted (rev (map (\<lambda>x. fst (snd x)) (dashboard_timeline evs lgs)))
   \<and> filter (\<lambda>x. fst (snd x) = t) (dashboard_timeline evs lgs)
       = filter (\<lambda>x. fst (snd x) = t)
           (map (\<lambda>e. (''EVENT'', event_created_at e, EventRow e)) evs
            @ map (\<lambda>l. (mode l, log_created_at l, LogRow l)) lgs)
   \<and> (distinct (map event_created_at evs @ map log_created_at lgs) \<longrightarrow>
        map as_report_entry (dashboard_timeline evs lgs) = rev (report_timeline evs lgs))"
proof -
  have 1: "sorted (map fst (report_timeline evs lgs))"
    unfolding report_timeline_def by (rule py_sort_sorted)
  have 2: "filter (\<lambda>x. fst x = t) (report_timeline evs lgs)
       = filter (\<lambda>x. fst x = t) (map report_event_entry evs @ map report_log_entry lgs)"
    unfolding report_timeline_def by (rule py_sort_stable)
  have 3: "sorted (rev (map (\<lambda>x. fst (snd x)) (dashboard_timeline evs lgs)))"
    unfolding dashboard_timeline_def by (rule py_sort_reverse_sorted)
  have 4: "filter (\<lambda>x. fst (snd x) = t) (dashboard_timeline evs lgs)
       = filter (\<lambda>x. fst (snd x) = t)
           (map (\<lambda>e. (''EVENT'', event_created_at e, EventRow e)) evs
            @ map (\<lambda>l. (mode l, log_created_at l, LogRow l)) lgs)"
    unfolding dashboard_timeline_def by (rule py_sort_reverse_stable)
  have 5: "distinct (map event_created_at evs @ map log_created_at lgs) \<longrightarrow>
        map as_report_entry (dashboard_timeline evs lgs) = rev (report_timeline evs lgs)"
    by (simp add: dashboard_as_report)
  show ?thesis
    by (intro conjI) (rule 1 2 3 4 5)+
qed

theorem timeline_merge_order_witness:
  "map as_report_entry (dashboard_timeline [shadow, knock] [late_note])
     = rev (report_timeline [shadow, knock] [late_note])
   \<and> map fst (report_timeline [shadow, knock] [late_note])
     = [''2024-03-01 00:05:00'', ''2024-03-01 00:07:30'', ''2024-03-01 00:09:10'']"
proof -
  note t = timeline_merge_order [of "[shadow, knock]" "[late_note]" "''2024-03-01 00:05:00''"]
  have d: "distinct (map event_created_at [shadow, knock] @ map log_created_at [late_note])"
    by (simp add: shadow_def knock_def late_note_def)
  have 1: "map as_report_entry (dashboard_timeline [shadow, knock] [late_note])
     = rev (report_timeline [shadow, knock] [late_note])"
    using t d by blast
  have 2: "map fst (report_timeline [shadow, knock] [late_note])
     = [''2024-03-01 00:05:00'', ''2024-03-01 00:07:30'', ''2024-03-01 00:09:10'']"
    by (simp add: report_timeline_def py_sort_def shadow_def knock_def late_note_def
        less_eq_list_code less_eq_char_def)
  from 1 2 show ?thesis by simp
qed

section \<open>Watch mode\<close>

lemma watch_collect_acc:
  "watch_collect fs seen acc
     = (acc @ fst (watch_collect fs seen []), snd (watch_collect fs seen []))"
proof (induction fs arbitrary: seen acc)
  case Nil
  show ?case by simp
next
  case (Cons f fs)
  show ?case
  proof (cases "cand_resolved f \<in> seen")
    case True
    with Cons[of seen acc] show ?thesis by simp
  next
    case False
    from Cons[of "insert (cand_resolved f) seen" "acc @ [f]"]
      Cons[of "insert (cand_resolved f) seen" "[f]"] False
    show ?thesis by (simp add: Let_def)
  qed
qed

lemma watch_collect_Cons:
  "fst (watch_collect (f # fs) seen []) =
     (if cand_resolved f \<in> seen then fst (watch_collect fs seen [])
      else f # fst (watch_collect fs (insert (cand_resolved f) seen) []))"
  "snd (watch_collect (f # fs) seen []) =
     (if cand_resolved f \<in> seen then snd (watch_collect fs seen [])
      else snd (watch_collect fs (insert (cand_resolved f) seen) []))"
  using watch_collect_acc[of fs "insert (cand_resolved f) seen" "[f]"]
  by (simp_all add: Let_def)

declare watch_collect.simps(2) [simp del]

lemma watch_collect_seen:
  "snd (watch_collect scan seen []) = seen \<union> cand_resolved ` set scan"
  by (induction scan arbitrary: seen) (auto simp: watch_collect_Cons)

lemma watch_collect_new_keys:
  "set (map cand_resolved (fst (watch_collect scan seen []))) = cand_resolved ` set scan - seen"
  by (induction scan arbitrary: seen) (auto simp: watch_collect_Cons)

lemma watch_collect_new_distinct:
  "distinct (map cand_resolved (fst (watch_collect scan seen [])))"
proof (induction scan arbitrary: seen)
  case Nil
  show ?case by simp
next
  case (Cons f fs)
  have "cand_resolved f \<notin> set (map cand_resolved
          (fst (watch_collect fs (insert (cand_resolved f) seen) [])))"
    unfolding watch_collect_new_keys by simp
  with Cons show ?case by (simp add: watch_collect_Cons)
qed

lemma watch_collect_new_subset:
  "set (fst (watch_collect scan seen [])) \<subseteq> set scan"
  by (induction scan arbitrary: seen) (auto simp: watch_collect_Cons)

lemma watch_collect_filter:
  "distinct (map cand_resolved scan) \<Longrightarrow>
   fst (watch_collect scan seen []) = filter (\<lambda>f. cand_resolved f \<notin> seen) scan"
proof (induction scan arbitrary: seen)
  case Nil
  show ?case by simp
next
  case (Cons f fs)
  then have d: "distinct (map cand_resolved fs)" and n: "cand_resolved f \<notin> cand_resolved ` set fs"
    by simp_all
  from n have "filter (\<lambda>g. cand_resolved g \<notin> insert (cand_resolved f) seen) fs
               = filter (\<lambda>g. cand_resolved g \<notin> seen) fs"
    by (intro filter_cong) (auto simp: image_iff)
  with Cons.IH[OF d] n show ?case by (simp add: watch_collect_Cons)
qed

lemma watch_collect_nothing:
  "cand_resolved ` set scan \<subseteq> seen \<Longrightarrow> watch_collect scan seen [] = ([], seen)"
  by (induction scan) (simp_all add: watch_collect.simps(2))

text \<open>A tick none of whose new files makes the loop body raise: it saves the paths of the
  whole scan, and what it ingests is the batch of the new files.\<close>

lemma watch_tick_on:
  assumes "find (\<lambda>r. session_id r = sid) (sessions w) = Some s"
    and "strptime_ts (started_at s) = Some d"
    and "\<forall>p\<in>set (fst (watch_collect (scan_folder fv recursive ignore_set) (watch_seen st) [])).
           \<not> aborts p"
  shows "watch_tick True fv recursive ignore_set sid choice cap dev rm desc linked st w =
     (st\<lparr>watch_on := True,
         watch_seen := watch_seen st \<union> cand_resolved ` set (scan_folder fv recursive ignore_set)\<rparr>,
      (if fst (watch_collect (scan_folder fv recursive ignore_set) (watch_seen st) []) = [] then w
       else fst (ingest_paths sid
                   (fst (watch_collect (scan_folder fv recursive ignore_set) (watch_seen st) []))
                   choice cap dev rm desc linked w)),
      (if fst (watch_collect (scan_folder fv recursive ignore_set) (watch_seen st) []) = []
       then Inr None
       else Inr (Some (length (filter storable
              (fst (watch_collect (scan_folder fv recursive ignore_set) (watch_seen st) [])))))))"
proof -
  let ?scan = "scan_folder fv recursive ignore_set"
  obtain new seen' where c: "watch_collect ?scan (watch_seen st) [] = (new, seen')"
    by (cases "watch_collect ?scan (watch_seen st) []")
  then have n: "fst (watch_collect ?scan (watch_seen st) []) = new"
    and "snd (watch_collect ?scan (watch_seen st) []) = seen'" by simp_all
  then have s: "seen' = watch_seen st \<union> cand_resolved ` set ?scan"
    by (simp add: watch_collect_seen)
  from assms(3) n have na: "\<forall>p\<in>set new. \<not> aborts p" by simp
  obtain w' r where i: "ingest_paths sid new choice cap dev rm desc linked w = (w', r)"
    by (cases "ingest_paths sid new choice cap dev rm desc linked w")
  with ingest_paths_run(1)[OF assms(1,2), of new choice cap dev rm desc linked] na
  have r: "r = Inr (length (filter storable new))" by simp
  have "watch_tick True fv recursive ignore_set sid choice cap dev rm desc linked st w =
     (st\<lparr>watch_on := True, watch_seen := watch_seen st \<union> cand_resolved ` set ?scan\<rparr>,
      (if new = [] then w else w'),
      (if new = [] then Inr None else Inr (Some (length (filter storable new)))))"
    unfolding watch_tick_def Let_def by (simp add: c i r s)
  then show ?thesis
    unfolding n by (simp add: i)
qed

text \<open>The tick after such a tick, over the same scan, ingests nothing and changes nothing.\<close>

lemma watch_tick_again:
  assumes "watch_seen st' = watch_seen st \<union> cand_resolved ` set (scan_folder fv recursive ignore_set)"
    and "watch_on st'"
  shows "watch_tick True fv recursive ignore_set sid choice cap dev rm desc linked st' w'
           = (st', w', Inr None)"
proof -
  have "watch_collect (scan_folder fv recursive ignore_set) (watch_seen st') []
          = ([], watch_seen st')"
    by (rule watch_collect_nothing) (simp add: assms(1))
  then show ?thesis
    unfolding watch_tick_def Let_def using assms(2) by simp
qed

text \<open>
  A tick one of whose new files makes the loop body raise: the exception leaves the watch
  section before \<open>watch_seen\<close> is saved, so \<open>watch_seen\<close> is what it was, while the files
  before the raising one have been ingested.
\<close>

lemma watch_tick_abort:
  assumes "find (\<lambda>r. session_id r = sid) (sessions w) = Some s"
    and "strptime_ts (started_at s) = Some d"
    and "watch_collect (scan_folder fv recursive ignore_set) (watch_seen st) [] = (new, seen')"
    and "\<exists>p\<in>set new. aborts p"
  shows "watch_tick True fv recursive ignore_set sid choice cap dev rm desc linked st w =
     (st\<lparr>watch_on := True\<rparr>,
      fst (ingest_paths sid new choice cap dev rm desc linked w),
      Inl (abort_error (hd (dropWhile (\<lambda>p. \<not> aborts p) new))))"
proof -
  from assms(4) have ne: "new \<noteq> []" by auto
  obtain w' r where i: "ingest_paths sid new choice cap dev rm desc linked w = (w', r)"
    by (cases "ingest_paths sid new choice cap dev rm desc linked w")
  with ingest_paths_run(1)[OF assms(1,2), of new choice cap dev rm desc linked] assms(4)
  have r: "r = Inl (abort_error (hd (dropWhile (\<lambda>p. \<not> aborts p) new)))" by auto
  show ?thesis
    unfolding watch_tick_def Let_def using ne by (simp add: assms(3) i r)
qed

text \<open>
  Claim C3. The collect loop of a tick picks the scanned files whose resolved path is not
  in \<open>watch_seen\<close>, and a tick that comes to its end saves the paths of the whole scan. A
  tick does not always come to its end: \<open>ingest_paths\<close> runs before \<open>watch_seen\<close> is saved,
  and what it raises leaves the watch section. Over the card folder that lists \<open>clip.MP4\<close>
  before the photo whose name cannot be encoded, the first tick stores and records
  \<open>clip.MP4\<close>, raises at the photo and leaves \<open>watch_seen\<close> empty; the second tick over the
  unchanged folder finds both files new again and stores and records \<open>clip.MP4\<close> a second
  time, under the next code, and so does every tick after it.
\<close>

theorem watch_tick_reingests:
  "snd (snd first_tick) = Inl UnicodeEncodeError
   \<and> watch_seen (fst first_tick) = {}
   \<and> map original_name (evidence (fst (snd first_tick))) = [''clip.MP4'']
   \<and> snd (snd second_tick) = Inl UnicodeEncodeError
   \<and> watch_seen (fst second_tick) = {}
   \<and> map original_name (evidence (fst (snd second_tick))) = [''clip.MP4'', ''clip.MP4'']
   \<and> map evidence_code (evidence (fst (snd second_tick)))
       = [''20240229_0001_VIDEO'', ''20240229_0002_VIDEO'']"
proof -
  let ?sid = "''20240229_235807''"
  let ?s = "\<lparr>session_id = ''20240229_235807'', started_at = ''2024-02-29 23:58:07'',
            ended_at = None, location = Some ''Attic'', session_notes = None\<rparr>"
  let ?folder = "SESSIONS_DIR @ [?sid, ''evidence'']"
  let ?w1 = "fst (ingest_paths ?sid [clip, raw_name] ''AUTO'' None None None None None attic_world)"
  let ?w2 = "fst (ingest_paths ?sid [clip, raw_name] ''AUTO'' None None None None None ?w1)"
  let ?st = "watching\<lparr>watch_on := True\<rparr>"
  note f = attic_session_found
  have t: "strptime_ts (started_at ?s) = Some (leap_night\<lparr>microsecond := 0\<rparr>)"
    using attic_started_parses by simp
  have d0: "strftime_date (leap_night\<lparr>microsecond := 0\<rparr>) = ''20240229''"
    using leap_night_date by (simp add: strftime_date_def)
  have sc: "scan_folder card_folder False {} = [clip, raw_name]"
    by (simp add: scan_folder_def card_folder_def)
  have keys: "cand_resolved clip \<noteq> cand_resolved raw_name"
    by (simp add: clip_def raw_name_def)
  have c: "watch_collect (scan_folder card_folder False {}) {} []
             = ([clip, raw_name], {cand_resolved clip, cand_resolved raw_name})"
    unfolding sc using keys by (auto simp: watch_collect.simps(2) Let_def)
  have ab: "\<exists>p\<in>set [clip, raw_name]. aborts p" by (simp add: card_aborts)
  have e: "abort_error (hd (dropWhile (\<lambda>p. \<not> aborts p) [clip, raw_name])) = UnicodeEncodeError"
    by (simp add: card_aborts card_abort_error)
  have pre: "takeWhile (\<lambda>p. \<not> aborts p) [clip, raw_name] = [clip]"
    by (simp add: card_aborts)
  have ws: "watch_seen watching = {}" "watch_seen ?st = {}"
    by (simp_all add: watching_def)
  have c0: "watch_collect (scan_folder card_folder False {}) (watch_seen watching) []
             = ([clip, raw_name], {cand_resolved clip, cand_resolved raw_name})"
    "watch_collect (scan_folder card_folder False {}) (watch_seen ?st) []
             = ([clip, raw_name], {cand_resolved clip, cand_resolved raw_name})"
    unfolding ws by (rule c)+
  have first: "first_tick = (?st, ?w1, Inl UnicodeEncodeError)"
    unfolding first_tick_def watch_tick_abort[OF f t c0(1) ab] e by (rule refl)
  note run1 = ingest_paths_run[OF f t, of "[clip, raw_name]" "''AUTO''" None None None None None]
  let ?row1 = "evidence_row_for ?sid ?folder ''20240229_0001_VIDEO'' ''VIDEO'' None None None None
                 None clip"
  let ?row2 = "evidence_row_for ?sid ?folder ''20240229_0002_VIDEO'' ''VIDEO'' None None None None
                 None clip"
  have ev1: "evidence ?w1 = [?row1]"
    unfolding run1(2) pre
    by (simp add: attic_world_tables attic_counter card_each card_names card_types type_upper
        zpad_small d0)
  have f1: "find (\<lambda>r. session_id r = ?sid) (sessions ?w1) = Some ?s"
    unfolding run1(3) by (rule f)
  have c1: "next_evidence_counter ?w1 ?sid = 2"
    by (simp add: next_evidence_counter_def ev1)
  have second: "second_tick = (?st, ?w2, Inl UnicodeEncodeError)"
    unfolding second_tick_def first fst_conv snd_conv watch_tick_abort[OF f1 t c0(2) ab] e
    by simp
  note run2 = ingest_paths_run[OF f1 t, of "[clip, raw_name]" "''AUTO''" None None None None None]
  have ev2: "evidence ?w2 = [?row1, ?row2]"
    unfolding run2(2) pre ev1 c1
    by (simp add: card_each card_names card_types type_upper zpad_small d0 numeral_2_eq_2)
  have 1: "snd (snd first_tick) = Inl UnicodeEncodeError" by (simp add: first)
  have 2: "watch_seen (fst first_tick) = {}" by (simp add: first ws)
  have 3: "map original_name (evidence (fst (snd first_tick))) = [''clip.MP4'']"
    by (simp add: first ev1 evidence_row_for_def card_names)
  have 4: "snd (snd second_tick) = Inl UnicodeEncodeError" by (simp add: second)
  have 5: "watch_seen (fst second_tick) = {}" by (simp add: second ws)
  have 6: "map original_name (evidence (fst (snd second_tick))) = [''clip.MP4'', ''clip.MP4'']"
    by (simp add: second ev2 evidence_row_for_def card_names)
  have 7: "map evidence_code (evidence (fst (snd second_tick)))
             = [''20240229_0001_VIDEO'', ''20240229_0002_VIDEO'']"
    by (simp add: second ev2 evidence_row_for_def)
  show ?thesis
    by (intro conjI) (rule 1 2 3 4 5 6 7)+
qed

section \<open>Report\<close>

lemma find_None_session:
  "find (\<lambda>r. session_id r = sid) (sessions w) = None \<longleftrightarrow> sid \<notin> set (map session_id (sessions w))"
  by (auto simp: find_None_iff)

lemma generate_pdf_report_missing:
  assumes "sid \<notin> set (map session_id (sessions w))"
  shows "generate_pdf_report sw logo sid w = (connect_db w, Inl (ValueError ''Session not found.''))"
  using assms find_None_session[of sid w] by (simp add: generate_pdf_report_def Let_def)

lemma generate_pdf_report_found:
  assumes "find (\<lambda>r. session_id r = sid) (sessions w) = Some session"
  shows "snd (generate_pdf_report sw logo sid w)
           = Inr (SESSIONS_DIR @ [sid, ''reports'', ''Report_'' @ sid @ ''.pdf''])"
    and "files (fst (generate_pdf_report sw logo sid w)) =
           (files w)(SESSIONS_DIR @ [sid, ''reports'', ''Report_'' @ sid @ ''.pdf''] \<mapsto>
              Document (report_ops sw logo sid session
                (sort_key log_created_at (filter (\<lambda>r. log_session_id r = sid) (logs w)))
                (sort_key event_created_at (filter (\<lambda>r. event_session_id r = sid) (events w)))
                (sort_key evidence_created_at
                   (filter (\<lambda>r. evidence_session_id r = sid) (evidence w)))
                (sort_key eq_at (filter (\<lambda>r. eq_session_id r = sid) (equipment_log w)))
                (sort_key team_label (filter (\<lambda>r. tracker_session_id r = sid) (tracker w)))))"
    and "sessions (fst (generate_pdf_report sw logo sid w)) = sessions w"
    and "logs (fst (generate_pdf_report sw logo sid w)) = logs w"
    and "events (fst (generate_pdf_report sw logo sid w)) = events w"
    and "evidence (fst (generate_pdf_report sw logo sid w)) = evidence w"
    and "equipment (fst (generate_pdf_report sw logo sid w)) = equipment w"
    and "equipment_log (fst (generate_pdf_report sw logo sid w)) = equipment_log w"
    and "tracker (fst (generate_pdf_report sw logo sid w)) = tracker w"
  using assms by (simp_all add: generate_pdf_report_def Let_def split_beta)

lemma section_title_room:
  "13 / 10 * inch \<le> y \<Longrightarrow>
   section_title ttl (c, y) =
     (c @ [SetFont ''Helvetica-Bold'' 13, DrawString x_margin y ttl, SetFont ''Helvetica'' 10],
      y - 3 / 10 * inch)"
  by (simp add: section_title_def)

lemma emit_line_room:
  "11 / 10 * inch \<le> y \<Longrightarrow>
   emit_line indent line feed (c, y) = (c @ [DrawString (x_margin + indent) y line], y - feed)"
  by (simp add: emit_line_def)

lemma placeholder_evidence:
  "11 / 10 * inch \<le> y \<Longrightarrow>
   draw_wrapped flat_width ''No evidence logged.'' 0 (c, y) =
     (c @ [DrawString x_margin y ''No evidence logged.''], y - 22 / 100 * inch)"
  by (simp add: draw_wrapped_def py_split_def is_space_def strip_def flat_width_def page_width_def
      x_margin_def inch_def emit_line_def)

lemma placeholder_equipment:
  "11 / 10 * inch \<le> y \<Longrightarrow>
   draw_wrapped flat_width ''No equipment activity logged.'' 0 (c, y) =
     (c @ [DrawString x_margin y ''No equipment activity logged.''], y - 22 / 100 * inch)"
  by (simp add: draw_wrapped_def py_split_def is_space_def strip_def flat_width_def page_width_def
      x_margin_def inch_def emit_line_def)

lemma placeholder_tracker:
  "11 / 10 * inch \<le> y \<Longrightarrow>
   draw_wrapped flat_width ''No tracker entries.'' 0 (c, y) =
     (c @ [DrawString x_margin y ''No tracker entries.''], y - 22 / 100 * inch)"
  by (simp add: draw_wrapped_def py_split_def is_space_def strip_def flat_width_def page_width_def
      x_margin_def inch_def emit_line_def)

lemma report_ops_empty:
  "drawn_strings (report_ops flat_width None sid session [] [] [] [] []) =
     [''Investigation Report Draft'', ''Session ID: '' @ sid, ''Started: '' @ started_at session,
      ''Ended: '' @ or_dash (ended_at session), ''Location: '' @ or_dash (location session),
      ''Timeline (Events + Notes)'',
      ''Evidence List'', ''No evidence logged.'',
      ''Equipment Usage'', ''No equipment activity logged.'',
      ''Investigator Tracker'', ''No tracker entries.'']"
proof -
  have t: "report_timeline [] [] = []"
    by (simp add: report_timeline_def py_sort_def)
  show ?thesis
    unfolding report_ops_def Let_def t
    by (simp add: section_title_room placeholder_evidence placeholder_equipment
        placeholder_tracker inch_def page_height_def drawn_strings_def)
qed

text \<open>
  Claim C6 against the code, at a session without any rows. The report is written and its
  path returned, and the headers of all four sections are drawn; the three later sections
  print their placeholder, but the timeline prints none: its header is followed directly by
  the header of the evidence list.
\<close>

theorem report_empty_session_timeline:
  "snd (generate_pdf_report flat_width None ''20240229_235807'' attic_world)
     = Inr [''data'', ''sessions'', ''20240229_235807'', ''reports'', ''Report_20240229_235807.pdf'']
   \<and> map_option (\<lambda>doc. case doc of Document c \<Rightarrow> drawn_strings c | Bytes b \<Rightarrow> [])
        (files (fst (generate_pdf_report flat_width None ''20240229_235807'' attic_world))
           [''data'', ''sessions'', ''20240229_235807'', ''reports'', ''Report_20240229_235807.pdf''])
     = Some [''Investigation Report Draft'', ''Session ID: 20240229_235807'',
             ''Started: 2024-02-29 23:58:07'', ''Ended: '' @ dash, ''Location: Attic'',
             ''Timeline (Events + Notes)'',
             ''Evidence List'', ''No evidence logged.'',
             ''Equipment Usage'', ''No equipment activity logged.'',
             ''Investigator Tracker'', ''No tracker entries.'']"
proof -
  have f: "find (\<lambda>r. session_id r = ''20240229_235807'') (sessions attic_world) =
     Some \<lparr>session_id = ''20240229_235807'', started_at = ''2024-02-29 23:58:07'', ended_at = None,
           location = Some ''Attic'', session_notes = None\<rparr>"
    by (simp add: attic_world_sessions)
  note g = generate_pdf_report_found[OF f, of flat_width None]
  have p: "SESSIONS_DIR @ [''20240229_235807'', ''reports'', ''Report_'' @ ''20240229_235807'' @ ''.pdf'']
      = [''data'', ''sessions'', ''20240229_235807'', ''reports'', ''Report_20240229_235807.pdf'']"
    by (simp add: SESSIONS_DIR_def DATA_DIR_def)
  have 1: "snd (generate_pdf_report flat_width None ''20240229_235807'' attic_world)
     = Inr [''data'', ''sessions'', ''20240229_235807'', ''reports'', ''Report_20240229_235807.pdf'']"
    using g(1) unfolding p .
  have 2: "map_option (\<lambda>doc. case doc of Document c \<Rightarrow> drawn_strings c | Bytes b \<Rightarrow> [])
        (files (fst (generate_pdf_report flat_width None ''20240229_235807'' attic_world))
           [''data'', ''sessions'', ''20240229_235807'', ''reports'', ''Report_20240229_235807.pdf''])
     = Some [''Investigation Report Draft'', ''Session ID: 20240229_235807'',
             ''Started: 2024-02-29 23:58:07'', ''Ended: '' @ dash, ''Location: Attic'',
             ''Timeline (Events + Notes)'',
             ''Evidence List'', ''No evidence logged.'',
             ''Equipment Usage'', ''No equipment activity logged.'',
             ''Investigator Tracker'', ''No tracker entries.'']"
    unfolding g(2) p
    by (simp add: attic_world_tables report_ops_empty or_dash_def)
  from 1 2 show ?thesis by (rule conjI)
qed

text \<open>
  Claim C9. \<open>generate_pdf_report\<close> ends in an error exactly when the session has no row, and
  the error is then ``Session not found.''. In that case no table and no file changes, and
  the only directories that may appear are the two data directories that every database
  connection ensures; with those in place, as \<open>init_db\<close> leaves them, the state is
  unchanged. When the session has a row, the result is the path \<open>Report_<id>.pdf\<close> in the
  session's \<open>reports\<close> folder, the document is in the file system at that path, and no table
  changes.
\<close>

theorem generate_pdf_report_not_found:
  "((\<exists>e. snd (generate_pdf_report sw logo sid w) = Inl e)
      \<longleftrightarrow> sid \<notin> set (map session_id (sessions w)))
   \<and> (sid \<notin> set (map session_id (sessions w)) \<longrightarrow>
        snd (generate_pdf_report sw logo sid w) = Inl (ValueError ''Session not found.'')
        \<and> sessions (fst (generate_pdf_report sw logo sid w)) = sessions w
        \<and> logs (fst (generate_pdf_report sw logo sid w)) = logs w
        \<and> events (fst (generate_pdf_report sw logo sid w)) = events w
        \<and> evidence (fst (generate_pdf_report sw logo sid w)) = evidence w
        \<and> equipment (fst (generate_pdf_report sw logo sid w)) = equipment w
        \<and> equipment_log (fst (generate_pdf_report sw logo sid w)) = equipment_log w
        \<and> tracker (fst (generate_pdf_report sw logo sid w)) = tracker w
        \<and> files (fst (generate_pdf_report sw logo sid w)) = files w
        \<and> dirs (fst (generate_pdf_report sw logo sid w))
            = insert DATA_DIR (insert SESSIONS_DIR (dirs w)))
   \<and> (sid \<notin> set (map session_id (sessions w)) \<and> dirs_ready w \<longrightarrow>
        fst (generate_pdf_report sw logo sid w) = w)
   \<and> (sid \<in> set (map session_id (sessions w)) \<longrightarrow>
        snd (generate_pdf_report sw logo sid w)
          = Inr (SESSIONS_DIR @ [sid, ''reports'', ''Report_'' @ sid @ ''.pdf''])
        \<and> (\<exists>c. files (fst (generate_pdf_report sw logo sid w))
                   (SESSIONS_DIR @ [sid, ''reports'', ''Report_'' @ sid @ ''.pdf''])
                 = Some (Document c))
        \<and> sessions (fst (generate_pdf_report sw logo sid w)) = sessions w
        \<and> logs (fst (generate_pdf_report sw logo sid w)) = logs w
        \<and> events (fst (generate_pdf_report sw logo sid w)) = events w
        \<and> evidence (fst (generate_pdf_report sw logo sid w)) = evidence w
        \<and> equipment_log (fst (generate_pdf_report sw logo sid w)) = equipment_log w
        \<and> tracker (fst (generate_pdf_report sw logo sid w)) = tracker w)"
proof -
  let ?g = "generate_pdf_report sw logo sid w"
  have found: "sid \<in> set (map session_id (sessions w)) \<longrightarrow>
        snd ?g = Inr (SESSIONS_DIR @ [sid, ''reports'', ''Report_'' @ sid @ ''.pdf''])
        \<and> (\<exists>c. files (fst ?g) (SESSIONS_DIR @ [sid, ''reports'', ''Report_'' @ sid @ ''.pdf''])
                 = Some (Document c))
        \<and> sessions (fst ?g) = sessions w
        \<and> logs (fst ?g) = logs w
        \<and> events (fst ?g) = events w
        \<and> evidence (fst ?g) = evidence w
        \<and> equipment_log (fst ?g) = equipment_log w
        \<and> tracker (fst ?g) = tracker w"
  proof
    assume "sid \<in> set (map session_id (sessions w))"
    then obtain s where "find (\<lambda>r. session_id r = sid) (sessions w) = Some s"
      using find_None_session[of sid w] by (cases "find (\<lambda>r. session_id r = sid) (sessions w)") auto
    note g = generate_pdf_report_found[OF this, of sw logo]
    show "snd ?g = Inr (SESSIONS_DIR @ [sid, ''reports'', ''Report_'' @ sid @ ''.pdf''])
        \<and> (\<exists>c. files (fst ?g) (SESSIONS_DIR @ [sid, ''reports'', ''Report_'' @ sid @ ''.pdf''])
                 = Some (Document c))
        \<and> sessions (fst ?g) = sessions w
        \<and> logs (fst ?g) = logs w
        \<and> events (fst ?g) = events w
        \<and> evidence (fst ?g) = evidence w
        \<and> equipment_log (fst ?g) = equipment_log w
        \<and> tracker (fst ?g) = tracker w"
      using g(1) g(3-6) g(8-9) by (simp add: g(2))
  qed
  have missing: "sid \<notin> set (map session_id (sessions w)) \<longrightarrow>
        snd ?g = Inl (ValueError ''Session not found.'')
        \<and> sessions (fst ?g) = sessions w
        \<and> logs (fst ?g) = logs w
        \<and> events (fst ?g) = events w
        \<and> evidence (fst ?g) = evidence w
        \<and> equipment (fst ?g) = equipment w
        \<and> equipment_log (fst ?g) = equipment_log w
        \<and> tracker (fst ?g) = tracker w
        \<and> files (fst ?g) = files w
        \<and> dirs (fst ?g) = insert DATA_DIR (insert SESSIONS_DIR (dirs w))"
    by (simp add: generate_pdf_report_missing connect_db_dirs)
  have untouched: "sid \<notin> set (map session_id (sessions w)) \<and> dirs_ready w \<longrightarrow> fst ?g = w"
    by (simp add: generate_pdf_report_missing connect_db_ready)
  have iff: "(\<exists>e. snd ?g = Inl e) \<longleftrightarrow> sid \<notin> set (map session_id (sessions w))"
  proof (cases "sid \<in> set (map session_id (sessions w))")
    case True
    with found have "snd ?g = Inr (SESSIONS_DIR @ [sid, ''reports'', ''Report_'' @ sid @ ''.pdf''])"
      by blast
    with True show ?thesis by simp
  next
    case False
    with missing have "snd ?g = Inl (ValueError ''Session not found.'')" by blast
    with False show ?thesis by simp
  qed
  show ?thesis
    by (intro conjI) (rule iff missing untouched found)+
qed

theorem generate_pdf_report_not_found_witness:
  "generate_pdf_report flat_width None ''20240301_000000'' attic_world
     = (attic_world, Inl (ValueError ''Session not found.''))
   \<and> snd (generate_pdf_report flat_width None ''20240229_235807'' attic_world)
     = Inr [''data'', ''sessions'', ''20240229_235807'', ''reports'', ''Report_20240229_235807.pdf'']"
proof -
  note miss = generate_pdf_report_not_found [of flat_width None "''20240301_000000''" attic_world]
  note hit = generate_pdf_report_not_found [of flat_width None "''20240229_235807''" attic_world]
  have absent: "''20240301_000000'' \<notin> set (map session_id (sessions attic_world))"
    by (simp add: attic_world_sessions)
  have present: "''20240229_235807'' \<in> set (map session_id (sessions attic_world))"
    by (simp add: attic_world_sessions)
  have 1: "snd (generate_pdf_report flat_width None ''20240301_000000'' attic_world)
             = Inl (ValueError ''Session not found.'')"
    using miss absent by blast
  have 2: "fst (generate_pdf_report flat_width None ''20240301_000000'' attic_world) = attic_world"
    using miss absent attic_world_ready by blast
  have 3: "snd (generate_pdf_report flat_width None ''20240229_235807'' attic_world)
     = Inr (SESSIONS_DIR @ [''20240229_235807'', ''reports'', ''Report_'' @ ''20240229_235807'' @ ''.pdf''])"
    using hit present by blast
  from 1 2 have "generate_pdf_report flat_width None ''20240301_000000'' attic_world
     = (attic_world, Inl (ValueError ''Session not found.''))"
    by (simp add: prod_eq_iff)
  with 3 show ?thesis
    by (simp add: SESSIONS_DIR_def DATA_DIR_def)
qed

end
